theory Spec2Isabelle
  imports Complex_Main "HOL-Library.Log_Nat"
begin

section \<open>Machine numbers\<close>

subsection \<open>Single-precision floats\<close>

text \<open>
  The C++ type \<open>float\<close> is IEEE 754 binary32. A finite binary32 value is a rational
  number, so a float is modelled as a \<open>rat\<close>, and every arithmetic operation computes
  the exact rational result and rounds it to the nearest binary32 value, ties to even,
  with gradual underflow (24 significant bits, least exponent \<open>-126\<close>). The exponent
  range is not bounded above, so no operation on floats overflows. Negative zero is
  identified with zero. Every operation rounds once; a product and a sum are never fused.
  A division by zero has no float as its result: \<open>fdiv\<close> reports it as the fault
  \<open>NotFinite\<close>, and \<open>ieee_div\<close>, further down, gives the infinity or the NaN that the
  hardware gives; it is the division of \<open>Diffuse::SetRT\<close>, whose divisor is computed from
  the argument of the call.
\<close>

type_synonym float = rat

datatype fault = OutOfBounds | NotFinite | NullPointer

definition pow2 :: "int \<Rightarrow> rat" where
  "pow2 e = (if 0 \<le> e then 2 ^ nat e else 1 / 2 ^ nat (- e))"

definition round_half_even :: "rat \<Rightarrow> int" where
  "round_half_even q =
     (let f = \<lfloor>q\<rfloor>; r = q - of_int f
      in if r < 1 / 2 then f else if 1 / 2 < r then f + 1
         else if even f then f else f + 1)"

text \<open>\<open>binade q\<close> is the exponent \<open>e\<close> with \<open>2^e \<le> |q| < 2^(e+1)\<close>, for \<open>q \<noteq> 0\<close>.\<close>

definition binade :: "rat \<Rightarrow> int" where
  "binade q =
     (let a = \<bar>q\<bar>
      in if 1 \<le> a then bitlen \<lfloor>a\<rfloor> - 1 else - bitlen (\<lceil>1 / a\<rceil> - 1))"

definition round32 :: "rat \<Rightarrow> float" where
  "round32 q =
     (if q = 0 then 0
      else let e = max (binade q) (- 126); u = pow2 (e - 23)
           in of_int (round_half_even (q / u)) * u)"

definition is_float :: "rat \<Rightarrow> bool" where
  "is_float q = (round32 q = q)"

definition fadd :: "float \<Rightarrow> float \<Rightarrow> float" where
  "fadd x y = round32 (x + y)"

definition fsub :: "float \<Rightarrow> float \<Rightarrow> float" where
  "fsub x y = round32 (x - y)"

definition fmul :: "float \<Rightarrow> float \<Rightarrow> float" where
  "fmul x y = round32 (x * y)"

definition fdiv :: "float \<Rightarrow> float \<Rightarrow> fault + float" where
  "fdiv x y = (if y = 0 then Inl NotFinite else Inr (round32 (x / y)))"

text \<open>Conversions: integer to float rounds, float to integer truncates towards zero,
  \<open>bool\<close> to float gives 1 or 0.\<close>

definition float_of_int :: "int \<Rightarrow> float" where
  "float_of_int i = round32 (of_int i)"

definition int_of_float :: "float \<Rightarrow> int" where
  "int_of_float x = (if 0 \<le> x then \<lfloor>x\<rfloor> else \<lceil>x\<rceil>)"

definition float_of_bool :: "bool \<Rightarrow> float" where
  "float_of_bool p = (if p then 1 else 0)"

subsection \<open>Values that need not be finite\<close>

text \<open>
  A binary32 value is a float, an infinity or NaN. The operations on these values round as
  those on floats do, and overflow: a result that rounds to more than the largest binary32
  value, \<open>2^128 - 2^104\<close>, is an infinity. A nonzero float divided by zero is an
  infinity: its sign is the sign of the dividend, reversed when the divisor is the
  negative zero. A float does not tell the two zeros apart, so the division takes the sign
  bit of its divisor as an argument, which it reads only when the divisor is zero. Zero
  divided by zero is NaN, as is zero times an infinity, and every operation on NaN gives
  NaN. Every comparison with NaN is false.
\<close>

datatype ieee = Fin float | PlusInf | MinusInf | NaN

definition max_float :: float where
  "max_float = 2 ^ 128 - 2 ^ 104"

definition ieee_round :: "rat \<Rightarrow> ieee" where
  "ieee_round q =
     (if max_float < \<bar>round32 q\<bar> then (if q < 0 then MinusInf else PlusInf)
      else Fin (round32 q))"

definition ieee_div :: "float \<Rightarrow> float \<Rightarrow> bool \<Rightarrow> ieee" where
  "ieee_div x y negative_zero =
     (if y \<noteq> 0 then ieee_round (x / y)
      else if x = 0 then NaN
      else if (x < 0) = negative_zero then PlusInf else MinusInf)"

fun ieee_negative :: "ieee \<Rightarrow> bool" where
  "ieee_negative (Fin x) = (x < 0)"
| "ieee_negative MinusInf = True"
| "ieee_negative _ = False"

fun ieee_mul :: "ieee \<Rightarrow> ieee \<Rightarrow> ieee" where
  "ieee_mul (Fin x) (Fin y) = ieee_round (x * y)"
| "ieee_mul NaN _ = NaN"
| "ieee_mul _ NaN = NaN"
| "ieee_mul x y =
     (if x = Fin 0 \<or> y = Fin 0 then NaN
      else if ieee_negative x = ieee_negative y then PlusInf else MinusInf)"

text \<open>The comparisons \<open>x >= k\<close>, \<open>x <= k\<close> and \<open>x > k\<close> of a value with a float.\<close>

fun ieee_ge :: "ieee \<Rightarrow> float \<Rightarrow> bool" where
  "ieee_ge (Fin x) k = (x \<ge> k)"
| "ieee_ge PlusInf k = True"
| "ieee_ge _ k = False"

fun ieee_le :: "ieee \<Rightarrow> float \<Rightarrow> bool" where
  "ieee_le (Fin x) k = (x \<le> k)"
| "ieee_le MinusInf k = True"
| "ieee_le _ k = False"

fun ieee_gt :: "ieee \<Rightarrow> float \<Rightarrow> bool" where
  "ieee_gt (Fin x) k = (x > k)"
| "ieee_gt PlusInf k = True"
| "ieee_gt _ k = False"

subsection \<open>32-bit integers\<close>

text \<open>\<open>uint32_t\<close> and \<open>int32_t\<close> values are integers, with the wrap-around of every
  operation that can leave the range written out.\<close>

definition u32 :: "int \<Rightarrow> int" where
  "u32 x = x mod 2 ^ 32"

definition s32 :: "int \<Rightarrow> int" where
  "s32 x = (x + 2 ^ 31) mod 2 ^ 32 - 2 ^ 31"

subsection \<open>Results\<close>

text \<open>An operation either does not return (\<open>None\<close>: one of its loops runs forever),
  or stops at a fault, or returns a value.\<close>

type_synonym 'a result = "(fault + 'a) option"

definition bindF :: "fault + 'a \<Rightarrow> ('a \<Rightarrow> fault + 'b) \<Rightarrow> fault + 'b" where
  "bindF m f = (case m of Inl e \<Rightarrow> Inl e | Inr x \<Rightarrow> f x)"

definition bindR :: "'a result \<Rightarrow> ('a \<Rightarrow> 'b result) \<Rightarrow> 'b result" where
  "bindR m f = (case m of None \<Rightarrow> None | Some (Inl e) \<Rightarrow> Some (Inl e) | Some (Inr x) \<Rightarrow> f x)"

subsection \<open>Float arrays\<close>

text \<open>A \<open>FloatArray\<close> is a list of floats. The library's accessors do not check the
  index; the model does, so that an access out of range is the fault \<open>OutOfBounds\<close>.\<close>

definition getElement :: "float list \<Rightarrow> int \<Rightarrow> fault + float" where
  "getElement a i = (if 0 \<le> i \<and> i < int (length a) then Inr (a ! nat i) else Inl OutOfBounds)"

definition setElement :: "float list \<Rightarrow> int \<Rightarrow> float \<Rightarrow> fault + float list" where
  "setElement a i v =
     (if 0 \<le> i \<and> i < int (length a) then Inr (a[nat i := v]) else Inl OutOfBounds)"

section \<open>Utility functions\<close>

text \<open>\<open>Max\<close>, \<open>Min\<close>, \<open>Clamp\<close>, \<open>Map\<close>, \<open>HardClip\<close> and \<open>LinearCrossFade\<close>, as the unit
  tests of the utility header give them.\<close>

definition Max_f :: "float \<Rightarrow> float \<Rightarrow> float" where
  "Max_f a b = (if a > b then a else b)"

definition Min_f :: "float \<Rightarrow> float \<Rightarrow> float" where
  "Min_f a b = (if a < b then a else b)"

definition Clamp :: "float \<Rightarrow> float \<Rightarrow> float \<Rightarrow> float" where
  "Clamp x lo hi = Min_f (Max_f x lo) hi"

definition Map_f :: "float \<Rightarrow> float \<Rightarrow> float \<Rightarrow> float \<Rightarrow> float \<Rightarrow> fault + float" where
  "Map_f v aMin aMax bMin bMax =
     bindF (fdiv \<bar>fsub bMax bMin\<bar> \<bar>fsub aMax aMin\<bar>) (\<lambda>q.
       let k = fmul q (if bMax > bMin then 1 else - 1)
       in Inr (fadd bMin (fmul k (fsub v aMin))))"

definition HardClip :: "float \<Rightarrow> float" where
  "HardClip x = Clamp x (- 1) 1"

definition LinearCrossFade :: "float \<Rightarrow> float \<Rightarrow> float \<Rightarrow> float" where
  "LinearCrossFade a b pos = fadd (fmul a (fsub 1 pos)) (fmul b pos)"

section \<open>ParameterInterpolator\<close>

text \<open>The state slot lives in a memory of float cells; a pointer is an address or null
  (\<open>None\<close>). The destructor is a function on that memory.\<close>

type_synonym memory = "nat \<Rightarrow> float"

record ParameterInterpolator =
  pi_state :: "nat option"
  pi_value :: float
  pi_increment :: float

definition deref :: "memory \<Rightarrow> nat option \<Rightarrow> fault + float" where
  "deref m p = (case p of None \<Rightarrow> Inl NullPointer | Some a \<Rightarrow> Inr (m a))"

definition ParameterInterpolator_default :: ParameterInterpolator where
  "ParameterInterpolator_default = \<lparr>pi_state = None, pi_value = 0, pi_increment = 0\<rparr>"

text \<open>The size-based constructor; \<open>size\<close> is a \<open>size_t\<close>.\<close>

definition ParameterInterpolator_by_size ::
    "memory \<Rightarrow> nat option \<Rightarrow> float \<Rightarrow> nat \<Rightarrow> fault + ParameterInterpolator" where
  "ParameterInterpolator_by_size m state new_value sz =
     bindF (if state \<noteq> None then deref m state else Inr 0) (\<lambda>v.
     bindF (if state \<noteq> None \<and> sz > 0
            then bindF (deref m state) (\<lambda>s. fdiv (fsub new_value s) (float_of_int (int sz)))
            else Inr 0) (\<lambda>inc.
     Inr \<lparr>pi_state = state, pi_value = v, pi_increment = inc\<rparr>))"

definition ParameterInterpolator_by_step ::
    "memory \<Rightarrow> nat option \<Rightarrow> float \<Rightarrow> float \<Rightarrow> fault + ParameterInterpolator" where
  "ParameterInterpolator_by_step m state new_value step =
     bindF (if state \<noteq> None then deref m state else Inr 0) (\<lambda>v.
     bindF (if state \<noteq> None
            then bindF (deref m state) (\<lambda>s. Inr (fmul (fsub new_value s) step))
            else Inr 0) (\<lambda>inc.
     Inr \<lparr>pi_state = state, pi_value = v, pi_increment = inc\<rparr>))"

definition ParameterInterpolator_dtor :: "memory \<Rightarrow> ParameterInterpolator \<Rightarrow> memory" where
  "ParameterInterpolator_dtor m p =
     (case pi_state p of None \<Rightarrow> m | Some a \<Rightarrow> m(a := pi_value p))"

definition Next :: "ParameterInterpolator \<Rightarrow> float \<times> ParameterInterpolator" where
  "Next p = (let v = fadd (pi_value p) (pi_increment p) in (v, p\<lparr>pi_value := v\<rparr>))"

definition subsample :: "ParameterInterpolator \<Rightarrow> float \<Rightarrow> float" where
  "subsample p t = fadd (pi_value p) (fmul (pi_increment p) t)"

text \<open>\<open>Nexts n p\<close>: the values returned by \<open>n\<close> successive calls of \<open>Next\<close>, and the
  interpolator after them.\<close>

fun Nexts :: "nat \<Rightarrow> ParameterInterpolator \<Rightarrow> float list \<times> ParameterInterpolator" where
  "Nexts 0 p = ([], p)"
| "Nexts (Suc n) p = (let (v, p') = Next p; (vs, p'') = Nexts n p' in (v # vs, p''))"

text \<open>The use the class comment shows: a scope that constructs the interpolator over the
  state slot \<open>s\<close>, calls \<open>Next\<close> once per sample of a block of \<open>n\<close>, and ends. The result
  is the list of values returned and the memory after the destructor.\<close>

definition ramp :: "memory \<Rightarrow> nat \<Rightarrow> float \<Rightarrow> nat \<Rightarrow> fault + float list \<times> memory" where
  "ramp m s new_value n =
     bindF (ParameterInterpolator_by_size m (Some s) new_value n) (\<lambda>p.
       let (vs, p') = Nexts n p in Inr (vs, ParameterInterpolator_dtor m p'))"

text \<open>The values \<open>a + k * (b - a) / n\<close> for \<open>k = 1..n\<close>, computed exactly.\<close>

definition exact_ramp :: "rat \<Rightarrow> rat \<Rightarrow> nat \<Rightarrow> rat list" where
  "exact_ramp a b n = map (\<lambda>k. a + of_nat k * ((b - a) / of_nat n)) [1 ..< Suc n]"

text \<open>A memory whose cells all hold the same value.\<close>

definition memory_of :: "float \<Rightarrow> memory" where
  "memory_of v = (\<lambda>a. v)"

section \<open>WriteHead and LooperBuffer\<close>

text \<open>The looper's constants are declared in the header of shared constants, which is
  not among the sources; they are parameters of the model. So is the crossfade function
  \<open>CheapEqualPowerCrossFade\<close>, called as \<open>xfade new old x\<close>.\<close>

record LooperConsts =
  kLooperTotalBufferLength :: int
  kLooperChannelBufferLength :: int
  kLooperFadeSamples :: int
  kLooperFadeSamplesR :: float
  kLooperClearBlockSize :: int
  kLooperClearBlockTypeSize :: int
  kLooperNoiseLevel :: float

type_synonym crossfade = "float \<Rightarrow> float \<Rightarrow> float \<Rightarrow> float"

datatype WriteStatus =
  WRITE_STATUS_INACTIVE | WRITE_STATUS_FADE_IN | WRITE_STATUS_FADE_OUT | WRITE_STATUS_ACTIVE

text \<open>The fields \<open>index_\<close>, \<open>start_\<close> and \<open>end_\<close> are never read or written; the buffer
  the head points to is passed to \<open>Write\<close> and returned by it.\<close>

record WriteHead =
  wh_status :: WriteStatus
  wh_fadeIndex :: int
  wh_doFade :: bool

definition WriteHead_ctor :: WriteHead where
  "WriteHead_ctor = \<lparr>wh_status = WRITE_STATUS_INACTIVE, wh_fadeIndex = 0, wh_doFade = False\<rparr>"

definition IsWriting :: "WriteHead \<Rightarrow> bool" where
  "IsWriting h = (WRITE_STATUS_INACTIVE \<noteq> wh_status h)"

definition Start :: "WriteHead \<Rightarrow> WriteHead" where
  "Start h =
     (if WRITE_STATUS_INACTIVE = wh_status h
      then h\<lparr>wh_status := WRITE_STATUS_FADE_IN, wh_doFade := True, wh_fadeIndex := 0\<rparr>
      else h)"

definition Stop :: "WriteHead \<Rightarrow> WriteHead" where
  "Stop h =
     (if WRITE_STATUS_ACTIVE = wh_status h
      then h\<lparr>wh_status := WRITE_STATUS_FADE_OUT, wh_doFade := True, wh_fadeIndex := 0\<rparr>
      else h)"

text \<open>The first loop of \<open>Write\<close>, on the unsigned position. Its second loop,
  \<open>while (position < 0)\<close>, never runs: the position is unsigned.\<close>

partial_function (option) wrap_unsigned :: "int \<Rightarrow> int \<Rightarrow> int option" where
  "wrap_unsigned len position =
     (if position \<ge> len then wrap_unsigned len (u32 (position - len)) else Some position)"

declare wrap_unsigned.simps [code]

definition Write_index :: "LooperConsts \<Rightarrow> int \<Rightarrow> int option" where
  "Write_index c position =
     wrap_unsigned (u32 (kLooperTotalBufferLength c)) (u32 position)"

text \<open>The fade branch of \<open>Write\<close>: the crossfade position \<open>x\<close> of this call and the head
  after it.\<close>

definition fade_step :: "LooperConsts \<Rightarrow> WriteHead \<Rightarrow> float \<times> WriteHead" where
  "fade_step c h =
     (let x = fmul (float_of_int (wh_fadeIndex h)) (kLooperFadeSamplesR c);
          x = (if WRITE_STATUS_FADE_IN = wh_status h then fsub 1 x else x);
          h1 = h\<lparr>wh_fadeIndex := s32 (wh_fadeIndex h + 1)\<rparr>
      in if wh_fadeIndex h1 = kLooperFadeSamples c
         then (float_of_bool (WRITE_STATUS_FADE_OUT = wh_status h1),
               h1\<lparr>wh_doFade := False,
                  wh_status := (if WRITE_STATUS_FADE_IN = wh_status h1
                                then WRITE_STATUS_ACTIVE else WRITE_STATUS_INACTIVE)\<rparr>)
         else (x, h1))"

definition WriteHead_Write ::
    "LooperConsts \<Rightarrow> crossfade \<Rightarrow> WriteHead \<Rightarrow> float list \<Rightarrow> int \<Rightarrow> float
       \<Rightarrow> (WriteHead \<times> float list) result" where
  "WriteHead_Write c xfade h buffer position v =
     (case Write_index c position of
        None \<Rightarrow> None
      | Some pos \<Rightarrow> Some (
          bindF (if wh_doFade h
                 then bindF (getElement buffer pos) (\<lambda>old.
                        let (x, h') = fade_step c h in Inr (h', xfade v old x))
                 else Inr (h, v)) (\<lambda>(h', v').
          if WRITE_STATUS_INACTIVE \<noteq> wh_status h'
          then bindF (setElement buffer pos v') (\<lambda>buffer'. Inr (h', buffer'))
          else Inr (h', buffer))))"

text \<open>\<open>clearBlock\<close> is the clear cursor, as an offset in floats from the start of the
  buffer.\<close>

record LooperBuffer =
  lb_buffer :: "float list"
  lb_clearBlock :: int
  lb_left :: WriteHead
  lb_right :: WriteHead

text \<open>The constructor fills the buffer with noise and scales it; \<open>noise i\<close> is the
  random sample the library writes to cell \<open>i\<close>.\<close>

definition LooperBuffer_ctor :: "LooperConsts \<Rightarrow> (nat \<Rightarrow> float) \<Rightarrow> LooperBuffer" where
  "LooperBuffer_ctor c noise =
     \<lparr>lb_buffer = map (\<lambda>i. fmul (noise i) (kLooperNoiseLevel c))
                      [0 ..< nat (kLooperTotalBufferLength c)],
      lb_clearBlock = 0, lb_left = WriteHead_ctor, lb_right = WriteHead_ctor\<rparr>"

text \<open>\<open>memset(p, 0, n)\<close> on floats: \<open>n\<close> bytes, four to a float, all bits zero being the
  float 0. A range that leaves the array, or that ends inside a float, is a fault.\<close>

definition memset_zero :: "float list \<Rightarrow> int \<Rightarrow> int \<Rightarrow> fault + float list" where
  "memset_zero a off nbytes =
     (if 0 \<le> off \<and> 0 \<le> nbytes \<and> nbytes mod 4 = 0 \<and> off + nbytes div 4 \<le> int (length a)
      then Inr (take (nat off) a @ replicate (nat (nbytes div 4)) 0
                @ drop (nat off + nat (nbytes div 4)) a)
      else Inl OutOfBounds)"

definition Clear :: "LooperConsts \<Rightarrow> LooperBuffer \<Rightarrow> fault + bool \<times> LooperBuffer" where
  "Clear c lb =
     (if lb_clearBlock lb = kLooperTotalBufferLength c
      then Inr (True, lb\<lparr>lb_clearBlock := 0\<rparr>)
      else bindF (memset_zero (lb_buffer lb) (lb_clearBlock lb) (kLooperClearBlockTypeSize c))
             (\<lambda>buffer'. Inr (False, lb\<lparr>lb_buffer := buffer',
                  lb_clearBlock := lb_clearBlock lb + kLooperClearBlockSize c\<rparr>)))"

definition LooperBuffer_Write ::
    "LooperConsts \<Rightarrow> crossfade \<Rightarrow> LooperBuffer \<Rightarrow> int \<Rightarrow> float \<Rightarrow> float
       \<Rightarrow> LooperBuffer result" where
  "LooperBuffer_Write c xfade lb i left right =
     bindR (WriteHead_Write c xfade (lb_left lb) (lb_buffer lb) (u32 i) left) (\<lambda>(hl, b1).
     bindR (WriteHead_Write c xfade (lb_right lb) b1
              (u32 (u32 i + u32 (kLooperChannelBufferLength c))) right) (\<lambda>(hr, b2).
     Some (Inr (lb\<lparr>lb_buffer := b2, lb_left := hl, lb_right := hr\<rparr>))))"

definition IsRecording :: "LooperBuffer \<Rightarrow> bool" where
  "IsRecording lb = (IsWriting (lb_left lb) \<and> IsWriting (lb_right lb))"

definition StartRecording :: "LooperBuffer \<Rightarrow> LooperBuffer" where
  "StartRecording lb = lb\<lparr>lb_left := Start (lb_left lb), lb_right := Start (lb_right lb)\<rparr>"

definition StopRecording :: "LooperBuffer \<Rightarrow> LooperBuffer" where
  "StopRecording lb = lb\<lparr>lb_left := Stop (lb_left lb), lb_right := Stop (lb_right lb)\<rparr>"

text \<open>The two loops of \<open>ReadLeft\<close> and \<open>ReadRight\<close>, on the signed position: subtract
  \<open>step\<close> while the position is at least \<open>bound\<close>, then add \<open>step\<close> while it is below
  \<open>bound\<close>.\<close>

partial_function (option) wrap_down :: "int \<Rightarrow> int \<Rightarrow> int \<Rightarrow> int option" where
  "wrap_down bound step position =
     (if position \<ge> bound then wrap_down bound step (s32 (position - step))
      else Some position)"

declare wrap_down.simps [code]

partial_function (option) wrap_up :: "int \<Rightarrow> int \<Rightarrow> int \<Rightarrow> int option" where
  "wrap_up bound step position =
     (if position < bound then wrap_up bound step (s32 (position + step))
      else Some position)"

declare wrap_up.simps [code]

definition ReadLeft_index :: "LooperConsts \<Rightarrow> int \<Rightarrow> int option" where
  "ReadLeft_index c position =
     Option.bind
       (wrap_down (kLooperChannelBufferLength c) (kLooperChannelBufferLength c) (s32 position))
       (wrap_up 0 (kLooperChannelBufferLength c))"

definition ReadLeft :: "LooperConsts \<Rightarrow> LooperBuffer \<Rightarrow> int \<Rightarrow> float result" where
  "ReadLeft c lb position =
     map_option (getElement (lb_buffer lb)) (ReadLeft_index c position)"

definition ReadRight_index :: "LooperConsts \<Rightarrow> int \<Rightarrow> int option" where
  "ReadRight_index c position =
     Option.bind
       (wrap_down (kLooperTotalBufferLength c) (kLooperChannelBufferLength c)
          (s32 (s32 position + kLooperChannelBufferLength c)))
       (wrap_up (kLooperChannelBufferLength c) (kLooperChannelBufferLength c))"

definition ReadRight :: "LooperConsts \<Rightarrow> LooperBuffer \<Rightarrow> int \<Rightarrow> float result" where
  "ReadRight c lb position =
     map_option (getElement (lb_buffer lb)) (ReadRight_index c position)"

text \<open>Successive calls: \<open>WriteHead_Writes\<close> and \<open>LooperBuffer_Writes\<close> make one \<open>Write\<close>
  call for each element of a list of arguments, \<open>Clears n\<close> makes \<open>n\<close> calls of \<open>Clear\<close>
  and collects what they return.\<close>

fun WriteHead_Writes ::
    "LooperConsts \<Rightarrow> crossfade \<Rightarrow> WriteHead \<Rightarrow> float list \<Rightarrow> (int \<times> float) list
       \<Rightarrow> (WriteHead \<times> float list) result" where
  "WriteHead_Writes c xfade h buffer [] = Some (Inr (h, buffer))"
| "WriteHead_Writes c xfade h buffer (w # ws) =
     bindR (WriteHead_Write c xfade h buffer (fst w) (snd w))
       (\<lambda>(h', buffer'). WriteHead_Writes c xfade h' buffer' ws)"

fun LooperBuffer_Writes ::
    "LooperConsts \<Rightarrow> crossfade \<Rightarrow> LooperBuffer \<Rightarrow> (int \<times> float \<times> float) list
       \<Rightarrow> LooperBuffer result" where
  "LooperBuffer_Writes c xfade lb [] = Some (Inr lb)"
| "LooperBuffer_Writes c xfade lb (w # ws) =
     bindR (LooperBuffer_Write c xfade lb (fst w) (fst (snd w)) (snd (snd w)))
       (\<lambda>lb'. LooperBuffer_Writes c xfade lb' ws)"

fun Clears :: "LooperConsts \<Rightarrow> nat \<Rightarrow> LooperBuffer \<Rightarrow> fault + bool list \<times> LooperBuffer" where
  "Clears c 0 lb = Inr ([], lb)"
| "Clears c (Suc n) lb =
     bindF (Clear c lb) (\<lambda>(r, lb'). bindF (Clears c n lb') (\<lambda>(rs, lb''). Inr (r # rs, lb'')))"

text \<open>The crossfade positions of \<open>n\<close> successive writes of a fading head.\<close>

fun fade_positions :: "LooperConsts \<Rightarrow> nat \<Rightarrow> WriteHead \<Rightarrow> float list" where
  "fade_positions c 0 h = []"
| "fade_positions c (Suc n) h =
     (if wh_doFade h then fst (fade_step c h) # fade_positions c n (snd (fade_step c h))
      else fade_positions c n h)"

text \<open>The calls a client can make on a write head, and their effect one after another
  from a given head and buffer.\<close>

datatype head_call = CallStart | CallStop | CallWrite int float

fun WriteHead_calls ::
    "LooperConsts \<Rightarrow> crossfade \<Rightarrow> WriteHead \<Rightarrow> float list \<Rightarrow> head_call list
       \<Rightarrow> (WriteHead \<times> float list) result" where
  "WriteHead_calls c xfade h buffer [] = Some (Inr (h, buffer))"
| "WriteHead_calls c xfade h buffer (CallStart # cs) =
     WriteHead_calls c xfade (Start h) buffer cs"
| "WriteHead_calls c xfade h buffer (CallStop # cs) =
     WriteHead_calls c xfade (Stop h) buffer cs"
| "WriteHead_calls c xfade h buffer (CallWrite p v # cs) =
     bindR (WriteHead_Write c xfade h buffer p v)
       (\<lambda>(h', buffer'). WriteHead_calls c xfade h' buffer' cs)"

text \<open>The invariant of the write head: it fades exactly in the two fade states, and
  while it fades the fade index is below the fade length.\<close>

definition head_inv :: "LooperConsts \<Rightarrow> WriteHead \<Rightarrow> bool" where
  "head_inv c h =
     ((wh_doFade h = (wh_status h = WRITE_STATUS_FADE_IN \<or> wh_status h = WRITE_STATUS_FADE_OUT))
      \<and> (\<not> wh_doFade h \<or> (0 \<le> wh_fadeIndex h \<and> wh_fadeIndex h < kLooperFadeSamples c)))"

text \<open>The status of a head after \<open>n\<close> more writes.\<close>

definition status_after :: "LooperConsts \<Rightarrow> WriteHead \<Rightarrow> nat \<Rightarrow> WriteStatus" where
  "status_after c h n =
     (if wh_status h = WRITE_STATUS_FADE_IN
      then (if int n < kLooperFadeSamples c - wh_fadeIndex h
            then WRITE_STATUS_FADE_IN else WRITE_STATUS_ACTIVE)
      else if wh_status h = WRITE_STATUS_FADE_OUT
      then (if int n < kLooperFadeSamples c - wh_fadeIndex h
            then WRITE_STATUS_FADE_OUT else WRITE_STATUS_INACTIVE)
      else wh_status h)"

text \<open>Constants for examples: a buffer of 8 floats, 4 to a channel, a fade of 4 samples,
  clear blocks of 2 floats; and a noise source that gives the same sample every time.\<close>

definition small_looper :: LooperConsts where
  "small_looper =
     \<lparr>kLooperTotalBufferLength = 8, kLooperChannelBufferLength = 4, kLooperFadeSamples = 4,
      kLooperFadeSamplesR = 1 / 4, kLooperClearBlockSize = 2, kLooperClearBlockTypeSize = 8,
      kLooperNoiseLevel = 1 / 2\<rparr>"

definition steady_noise :: "float \<Rightarrow> nat \<Rightarrow> float" where
  "steady_noise v = (\<lambda>i. v)"

section \<open>Damp\<close>

record Damp =
  lpCoeff :: float
  hpCoeff :: float
  lpState :: float
  hpState :: float

definition Damp_ctor :: "float \<Rightarrow> Damp" where
  "Damp_ctor sampleRate = \<lparr>lpCoeff = 0, hpCoeff = 0, lpState = 0, hpState = 0\<rparr>"

text \<open>A decimal literal such as \<open>0.05f\<close> denotes the float nearest to it.\<close>

definition SetHi :: "Damp \<Rightarrow> float \<Rightarrow> fault + Damp" where
  "SetHi d val =
     bindF (Map_f val (- 40) (- (1 / 2)) (round32 (5 / 100)) (round32 (9 / 10))) (\<lambda>norm.
       Inr (d\<lparr>lpCoeff := Clamp norm (round32 (1 / 1000)) (round32 (999 / 1000))\<rparr>))"

definition SetLo :: "Damp \<Rightarrow> float \<Rightarrow> fault + Damp" where
  "SetLo d val =
     bindF (Map_f val (- 40) (- (1 / 2)) (round32 (9 / 10)) (round32 (5 / 100))) (\<lambda>norm.
       Inr (d\<lparr>hpCoeff := Clamp norm (round32 (1 / 1000)) (round32 (999 / 1000))\<rparr>))"

definition SetHp :: "Damp \<Rightarrow> int \<Rightarrow> Damp" where
  "SetHp d val = d"

definition SetLp :: "Damp \<Rightarrow> float \<Rightarrow> Damp" where
  "SetLp d val = d"

definition Damp_Process :: "Damp \<Rightarrow> float \<Rightarrow> float \<times> Damp" where
  "Damp_Process d x =
     (let lp = fadd (lpState d) (fmul (lpCoeff d) (fsub x (lpState d)));
          hp = fadd (hpState d) (fmul (hpCoeff d) (fsub lp (hpState d)));
          out = fsub lp hp
      in (lp, d\<lparr>lpState := lp, hpState := hp\<rparr>))"

text \<open>A run of a filter: a list of calls, and the values its \<open>Process\<close> calls return.\<close>

datatype damp_call =
  CallSetHi float | CallSetLo float | CallSetHp int | CallSetLp float | CallProcess float

fun damp_step :: "Damp \<Rightarrow> damp_call \<Rightarrow> fault + float list \<times> Damp" where
  "damp_step d (CallSetHi v) = bindF (SetHi d v) (\<lambda>d'. Inr ([], d'))"
| "damp_step d (CallSetLo v) = bindF (SetLo d v) (\<lambda>d'. Inr ([], d'))"
| "damp_step d (CallSetHp v) = Inr ([], SetHp d v)"
| "damp_step d (CallSetLp v) = Inr ([], SetLp d v)"
| "damp_step d (CallProcess x) = (let (y, d') = Damp_Process d x in Inr ([y], d'))"

fun damp_run :: "Damp \<Rightarrow> damp_call list \<Rightarrow> fault + float list \<times> Damp" where
  "damp_run d [] = Inr ([], d)"
| "damp_run d (c # cs) =
     bindF (damp_step d c) (\<lambda>(ys, d'). bindF (damp_run d' cs) (\<lambda>(zs, d''). Inr (ys @ zs, d'')))"

text \<open>Two runs that differ only in the arguments passed to \<open>SetLo\<close>.\<close>

fun same_but_SetLo :: "damp_call \<Rightarrow> damp_call \<Rightarrow> bool" where
  "same_but_SetLo (CallSetLo u) (CallSetLo v) = True"
| "same_but_SetLo a b = (a = b)"

text \<open>The reference the returned values are compared with: a one-pole lowpass
  \<open>y[n] = y[n-1] + c * (x[n] - y[n-1])\<close> whose coefficient \<open>c\<close> is the one the last
  \<open>SetHi\<close> stored, and which knows of no other call.\<close>

definition hi_coeff :: "float \<Rightarrow> fault + float" where
  "hi_coeff val =
     bindF (Map_f val (- 40) (- (1 / 2)) (round32 (5 / 100)) (round32 (9 / 10))) (\<lambda>norm.
       Inr (Clamp norm (round32 (1 / 1000)) (round32 (999 / 1000))))"

fun one_pole_lowpass :: "float \<Rightarrow> float \<Rightarrow> damp_call list \<Rightarrow> fault + float list" where
  "one_pole_lowpass c y [] = Inr []"
| "one_pole_lowpass c y (CallSetHi v # cs) = bindF (hi_coeff v) (\<lambda>c'. one_pole_lowpass c' y cs)"
| "one_pole_lowpass c y (CallProcess x # cs) =
     (let y' = fadd y (fmul c (fsub x y))
      in bindF (one_pole_lowpass c y' cs) (\<lambda>ys. Inr (y' # ys)))"
| "one_pole_lowpass c y (_ # cs) = one_pole_lowpass c y cs"

section \<open>Diffuse\<close>

text \<open>The number of diffusers, the constant \<open>kOne\<close>, the conversions \<open>M2D\<close> and \<open>Db2A\<close>
  and the delay line class are declared in headers that are not among the sources; they
  are parameters of the model. \<open>kAmbienceNofDiffusers\<close> is the size of the arrays of the
  class, so it is at least 1 and every array below has that length. \<open>M2D\<close> gives a
  float, and \<open>M2D_negative_zero\<close> tells whether the float it gives is the negative zero.
  \<open>Db2A\<close> is given a level that can be infinite or NaN, and whatever it gives is
  allowed.\<close>

record 'd AmbienceEnv =
  kAmbienceNofDiffusers :: nat
  kAmbienceBufferSize :: int
  kOne :: float
  M2D :: "float \<Rightarrow> float"
  M2D_negative_zero :: "float \<Rightarrow> bool"
  Db2A :: "ieee \<Rightarrow> ieee"
  DelayLine_create :: "int \<Rightarrow> 'd"
  DelayLine_write :: "'d \<Rightarrow> float \<Rightarrow> 'd"
  DelayLine_read :: "'d \<Rightarrow> float \<Rightarrow> float \<Rightarrow> float \<Rightarrow> float \<times> 'd"

record 'd Diffuse =
  df_diffuse :: "'d list"
  df_delayTimes :: "float list"
  df_newDelayTimes :: "float list"
  df_size :: float
  df_time :: float
  df_rt :: ieee
  df_df :: float
  df_fbOut :: ieee
  df_outs :: "float list"
  df_needsUpdate :: bool

text \<open>The level \<open>(delayTimes_[kAmbienceNofDiffusers - 1] / M2D(time)) * -60.f\<close> that
  \<open>SetRT\<close> passes to \<open>Db2A\<close>. The division has no guard.\<close>

definition decay_level :: "'d AmbienceEnv \<Rightarrow> 'd Diffuse \<Rightarrow> float \<Rightarrow> ieee" where
  "decay_level env d t =
     ieee_mul (ieee_div (df_delayTimes d ! (kAmbienceNofDiffusers env - 1)) (M2D env t)
                 (M2D_negative_zero env t))
       (Fin (- 60))"

definition SetRT :: "'d AmbienceEnv \<Rightarrow> 'd Diffuse \<Rightarrow> float \<Rightarrow> 'd Diffuse" where
  "SetRT env d t =
     (let d1 = d\<lparr>df_time := t\<rparr>;
          rt = Db2A env (decay_level env d1 t)
      in d1\<lparr>df_rt := (if ieee_ge rt (kOne env) then Fin 1 else rt)\<rparr>)"

definition SetSZ :: "'d AmbienceEnv \<Rightarrow> 'd Diffuse \<Rightarrow> float \<Rightarrow> 'd Diffuse" where
  "SetSZ env d sz =
     (let d1 = d\<lparr>df_size := sz\<rparr>;
          d2 = fold (\<lambda>i d. d\<lparr>df_newDelayTimes := (df_newDelayTimes d)
                       [i := M2D env (fadd sz (fmul 2 (float_of_int (int i + 1))))]\<rparr>)
                 [0 ..< kAmbienceNofDiffusers env - 1] d1;
          d3 = d2\<lparr>df_newDelayTimes := (df_newDelayTimes d2)
                       [kAmbienceNofDiffusers env - 1 := M2D env (fsub sz 7)]\<rparr>;
          d4 = SetRT env d3 (df_time d3)
      in d4\<lparr>df_needsUpdate := True\<rparr>)"

definition SetDf :: "'d Diffuse \<Rightarrow> float \<Rightarrow> 'd Diffuse" where
  "SetDf d v = d\<lparr>df_df := v\<rparr>"

definition GetFbOut :: "'d Diffuse \<Rightarrow> ieee" where
  "GetFbOut d = df_fbOut d"

definition UpdateDelayTimes :: "'d AmbienceEnv \<Rightarrow> 'd Diffuse \<Rightarrow> 'd Diffuse" where
  "UpdateDelayTimes env d =
     (if \<not> df_needsUpdate d then d
      else (fold (\<lambda>i d. d\<lparr>df_delayTimes := (df_delayTimes d)[i := df_newDelayTimes d ! i]\<rparr>)
              [0 ..< kAmbienceNofDiffusers env] d)\<lparr>df_needsUpdate := False\<rparr>)"

text \<open>One stage of the loop of \<open>Process\<close>, on the running output and the object.\<close>

definition Diffuse_stage ::
    "'d AmbienceEnv \<Rightarrow> float \<Rightarrow> nat \<Rightarrow> float \<times> 'd Diffuse \<Rightarrow> float \<times> 'd Diffuse" where
  "Diffuse_stage env x i od =
     (let out = fst od; d = snd od;
          prev = HardClip (fsub out (fmul (df_outs d ! i) (df_df d)));
          l1 = DelayLine_write env (df_diffuse d ! i) prev;
          out' = HardClip (fadd (fmul prev (df_df d)) (df_outs d ! i));
          (r, l2) = DelayLine_read env l1 (df_delayTimes d ! i) (df_newDelayTimes d ! i) x
      in (out', d\<lparr>df_diffuse := (df_diffuse d)[i := l2], df_outs := (df_outs d)[i := r]\<rparr>))"

definition Diffuse_Process ::
    "'d AmbienceEnv \<Rightarrow> 'd Diffuse \<Rightarrow> float \<Rightarrow> float \<Rightarrow> float \<times> 'd Diffuse" where
  "Diffuse_Process env d inp x =
     (let (out, d1) = fold (Diffuse_stage env x) [0 ..< kAmbienceNofDiffusers env - 1] (inp, d);
          lastDiff = kAmbienceNofDiffusers env - 1;
          d2 = d1\<lparr>df_fbOut := ieee_mul (Fin (df_outs d1 ! lastDiff)) (df_rt d1)\<rparr>;
          l1 = DelayLine_write env (df_diffuse d2 ! lastDiff) out;
          (r, l2) = DelayLine_read env l1 (df_delayTimes d2 ! lastDiff)
                      (df_newDelayTimes d2 ! lastDiff) x
      in (out, d2\<lparr>df_diffuse := (df_diffuse d2)[lastDiff := l2],
                  df_outs := (df_outs d2)[lastDiff := r]\<rparr>))"

text \<open>The constructor leaves the arrays of delay times and outputs, \<open>size_\<close>, \<open>time_\<close>
  and \<open>rt_\<close> uninitialised before it calls \<open>SetSZ(1)\<close> and \<open>SetRT(0)\<close>; \<open>u\<close> holds the
  values those fields happen to have.\<close>

definition Diffuse_ctor :: "'d AmbienceEnv \<Rightarrow> 'd Diffuse \<Rightarrow> 'd Diffuse" where
  "Diffuse_ctor env u =
     SetRT env
       (SetSZ env (u\<lparr>df_diffuse := replicate (kAmbienceNofDiffusers env)
                             (DelayLine_create env (kAmbienceBufferSize env)),
                     df_fbOut := Fin 0, df_df := 0, df_needsUpdate := False\<rparr>) 1)
       0"

text \<open>The calls a client can make on a diffuser, and their effect one after another.\<close>

datatype diffuse_call =
  CallSetSZ float | CallSetRT float | CallSetDf float | CallUpdateDelayTimes
  | CallDiffuseProcess float float

fun diffuse_step :: "'d AmbienceEnv \<Rightarrow> 'd Diffuse \<Rightarrow> diffuse_call \<Rightarrow> 'd Diffuse" where
  "diffuse_step env d (CallSetSZ v) = SetSZ env d v"
| "diffuse_step env d (CallSetRT v) = SetRT env d v"
| "diffuse_step env d (CallSetDf v) = SetDf d v"
| "diffuse_step env d CallUpdateDelayTimes = UpdateDelayTimes env d"
| "diffuse_step env d (CallDiffuseProcess v x) = snd (Diffuse_Process env d v x)"

fun diffuse_run :: "'d AmbienceEnv \<Rightarrow> 'd Diffuse \<Rightarrow> diffuse_call list \<Rightarrow> 'd Diffuse" where
  "diffuse_run env d [] = d"
| "diffuse_run env d (c # cs) = diffuse_run env (diffuse_step env d c) cs"

text \<open>An environment for examples: two diffusers, \<open>kOne\<close> equal to 1, every note one
  sample long, every level converted to the gain 2, and delay lines without content.\<close>

definition small_ambience :: "unit AmbienceEnv" where
  "small_ambience =
     \<lparr>kAmbienceNofDiffusers = 2, kAmbienceBufferSize = 8, kOne = 1,
      M2D = (\<lambda>m. 1), M2D_negative_zero = (\<lambda>m. False), Db2A = (\<lambda>db. Fin 2),
      DelayLine_create = (\<lambda>n. ()), DelayLine_write = (\<lambda>l v. ()),
      DelayLine_read = (\<lambda>l a b x. (0, ()))\<rparr>"

definition small_diffuse :: "unit Diffuse" where
  "small_diffuse =
     \<lparr>df_diffuse = [(), ()], df_delayTimes = [3, 5], df_newDelayTimes = [3, 5],
      df_size = 0, df_time = 0, df_rt = Fin 0, df_df = 0, df_fbOut = Fin 0, df_outs = [0, 0],
      df_needsUpdate = False\<rparr>"

text \<open>A second environment, in which the note \<open>m\<close> is \<open>m\<close> samples long, so that the time
  0 converts to the delay 0. Its \<open>Db2A\<close> gives the gain 1 at a level of 0 dB or more and
  the gain 1/2 below, the gain 0 at minus infinity, and keeps plus infinity and NaN, as
  a power of ten does.\<close>

definition plain_ambience :: "unit AmbienceEnv" where
  "plain_ambience =
     small_ambience\<lparr>M2D := (\<lambda>m. m),
       Db2A := (\<lambda>db. case db of Fin x \<Rightarrow> Fin (if 0 \<le> x then 1 else 1 / 2)
                      | PlusInf \<Rightarrow> PlusInf | MinusInf \<Rightarrow> Fin 0 | NaN \<Rightarrow> NaN)\<rparr>"

text \<open>A diffuser whose last stage has the delay time 0.\<close>

definition still_diffuse :: "unit Diffuse" where
  "still_diffuse = small_diffuse\<lparr>df_delayTimes := [3, 0]\<rparr>"

section \<open>ReversedBuffer\<close>

text \<open>\<open>rv_d\<close> and \<open>rv_out\<close> are not initialised by the constructor; \<open>d0\<close> and \<open>out0\<close> are
  the values they happen to have, and \<open>line0\<close> is the array the library allocates.\<close>

record ReversedBuffer =
  rv_line :: "float list"
  rv_s :: int
  rv_d :: int
  rv_i :: int
  rv_o :: int
  rv_bs :: int
  rv_b :: int
  rv_rb :: float
  rv_out :: float

definition ReversedBuffer_ctor ::
    "int \<Rightarrow> float list \<Rightarrow> int \<Rightarrow> float \<Rightarrow> fault + ReversedBuffer" where
  "ReversedBuffer_ctor s line0 d0 out0 =
     bindF (fdiv 1 (float_of_int (s div 2))) (\<lambda>rb.
       Inr \<lparr>rv_line = line0, rv_s = s, rv_d = d0, rv_i = 0, rv_o = s32 (s - 1),
            rv_bs = s div 2, rv_b = s div 2, rv_rb = rb, rv_out = out0\<rparr>)"

definition SetDelay :: "ReversedBuffer \<Rightarrow> int \<Rightarrow> ReversedBuffer" where
  "SetDelay r d =
     r\<lparr>rv_bs := int_of_float (Clamp (float_of_int d) 1 (float_of_int (rv_s r div 2)))\<rparr>"

text \<open>The gain \<open>g\<close> that \<open>Process\<close> applies to the sample it reads.\<close>

definition window_gain :: "ReversedBuffer \<Rightarrow> float" where
  "window_gain r =
     (let x = fmul (float_of_int (rv_b r)) (rv_rb r) in fmul (fmul 4 x) (fsub 1 x))"

definition ReversedBuffer_Process ::
    "ReversedBuffer \<Rightarrow> float \<Rightarrow> (float \<times> ReversedBuffer) result" where
  "ReversedBuffer_Process r input =
     (case setElement (rv_line r) (rv_i r) input of
        Inl e \<Rightarrow> Some (Inl e)
      | Inr line1 \<Rightarrow>
          let i1 = s32 (rv_i r + 1);
              i2 = (if i1 = rv_s r then 0 else i1);
              g = window_gain r
          in (case getElement line1 (rv_o r) of
                Inl e \<Rightarrow> Some (Inl e)
              | Inr v \<Rightarrow>
                  let out = Clamp (fmul v g) (- 3) 3;
                      o1 = s32 (rv_o r - 1);
                      b1 = s32 (rv_b r - 1);
                      o2 = (if b1 = 0 then s32 (i2 - 1) else o1);
                      b2 = (if b1 = 0 then rv_bs r else b1)
                  in map_option (\<lambda>o3. Inr (out, r\<lparr>rv_line := line1, rv_i := i2, rv_o := o3,
                                                  rv_b := b2, rv_out := out\<rparr>))
                       (wrap_up 0 (rv_s r) o2)))"

fun ReversedBuffer_Processes ::
    "ReversedBuffer \<Rightarrow> float list \<Rightarrow> (float list \<times> ReversedBuffer) result" where
  "ReversedBuffer_Processes r [] = Some (Inr ([], r))"
| "ReversedBuffer_Processes r (x # xs) =
     bindR (ReversedBuffer_Process r x) (\<lambda>(y, r').
     bindR (ReversedBuffer_Processes r' xs) (\<lambda>(ys, r''). Some (Inr (y # ys, r''))))"

section \<open>Facts about floats\<close>

text \<open>\<open>round32 q\<close> is a multiple of the unit in the last place of the binade of \<open>q\<close>, and
  it is within half a unit of \<open>q\<close>.\<close>

lemma pow2_pos: "0 < pow2 e"
  by (simp add: pow2_def)

lemma pow2_Suc: "pow2 (e + 1) = 2 * pow2 e"
proof (cases "0 \<le> e")
  case True
  then show ?thesis by (simp add: pow2_def nat_add_distrib)
next
  case False
  then have "nat (- e) = Suc (nat (- (e + 1)))" by simp
  then show ?thesis using False by (simp add: pow2_def)
qed

lemma round_half_even_error: "\<bar>of_int (round_half_even x) - x\<bar> \<le> 1 / 2"
proof -
  define r where "r = x - of_int \<lfloor>x\<rfloor>"
  have r: "0 \<le> r" "r < 1"
    unfolding r_def by linarith+
  have x: "x = of_int \<lfloor>x\<rfloor> + r"
    by (simp add: r_def)
  consider "r < 1 / 2" | "1 / 2 < r" | "r = 1 / 2"
    by linarith
  then show ?thesis
  proof cases
    case 1
    then have "round_half_even x = \<lfloor>x\<rfloor>"
      by (simp add: round_half_even_def Let_def r_def)
    then have "of_int (round_half_even x) - x = - r"
      by (simp add: r_def)
    then show ?thesis using 1 r by (simp add: abs_if)
  next
    case 2
    then have "round_half_even x = \<lfloor>x\<rfloor> + 1"
      by (simp add: round_half_even_def Let_def r_def)
    then have "of_int (round_half_even x) - x = 1 - r"
      by (simp add: r_def)
    then show ?thesis using 2 r by (simp add: abs_if)
  next
    case 3
    then have "round_half_even x = \<lfloor>x\<rfloor> \<or> round_half_even x = \<lfloor>x\<rfloor> + 1"
      by (simp add: round_half_even_def Let_def r_def)
    then have "of_int (round_half_even x) - x = - r \<or> of_int (round_half_even x) - x = 1 - r"
      by (auto simp: r_def)
    then show ?thesis using 3 by (auto simp: abs_if)
  qed
qed

lemma binade_bounds:
  assumes "q \<noteq> 0"
  shows "pow2 (binade q) \<le> \<bar>q\<bar> \<and> \<bar>q\<bar> < pow2 (binade q + 1)"
proof (cases "1 \<le> \<bar>q\<bar>")
  case True
  let ?n = "\<lfloor>\<bar>q\<bar>\<rfloor>"
  have n: "0 < ?n" using True by simp
  then have b1: "1 \<le> bitlen ?n" by (simp add: bitlen_alt_def)
  note bb = bitlen_bounds[OF n]
  have e: "binade q = bitlen ?n - 1"
    using True by (simp add: binade_def Let_def)
  have p1: "pow2 (bitlen ?n - 1) = of_int (2 ^ nat (bitlen ?n - 1))"
    using b1 by (simp add: pow2_def)
  have p2: "pow2 (bitlen ?n - 1 + 1) = of_int (2 ^ nat (bitlen ?n))"
    using b1 by (simp add: pow2_def)
  have lo: "(of_int (2 ^ nat (bitlen ?n - 1)) :: rat) \<le> of_int ?n"
    using bb by (simp only: of_int_le_iff)
  have "?n + 1 \<le> 2 ^ nat (bitlen ?n)" using bb by simp
  then have hi: "(of_int (?n + 1) :: rat) \<le> of_int (2 ^ nat (bitlen ?n))"
    by (simp only: of_int_le_iff)
  have fl: "of_int ?n \<le> \<bar>q\<bar>" "\<bar>q\<bar> < of_int (?n + 1)"
    by linarith+
  show ?thesis
    unfolding e p1 p2 using lo hi fl by linarith
next
  case False
  let ?a = "\<bar>q\<bar>"
  have a: "0 < ?a" "?a < 1" using assms False by simp_all
  let ?m = "\<lceil>1 / ?a\<rceil> - 1"
  have inv: "1 < 1 / ?a" using a by simp
  then have "1 < \<lceil>1 / ?a\<rceil>" by linarith
  then have m: "0 < ?m" by simp
  then have b1: "1 \<le> bitlen ?m" by (simp add: bitlen_alt_def)
  note bb = bitlen_bounds[OF m]
  have e: "binade q = - bitlen ?m"
    using False by (simp add: binade_def Let_def)
  have p1: "pow2 (- bitlen ?m) = 1 / of_int (2 ^ nat (bitlen ?m))"
    using b1 by (simp add: pow2_def)
  have p2: "pow2 (- bitlen ?m + 1) = 1 / of_int (2 ^ nat (bitlen ?m - 1))"
    using b1 by (auto simp: pow2_def)
  have "?m + 1 \<le> 2 ^ nat (bitlen ?m)" using bb by simp
  then have "(of_int (?m + 1) :: rat) \<le> of_int (2 ^ nat (bitlen ?m))"
    by (simp only: of_int_le_iff)
  moreover have "1 / ?a \<le> of_int (?m + 1)" by simp
  ultimately have u: "1 / ?a \<le> of_int (2 ^ nat (bitlen ?m))" by linarith
  have "(of_int (2 ^ nat (bitlen ?m - 1)) :: rat) \<le> of_int ?m"
    using bb by (simp only: of_int_le_iff)
  moreover have "of_int ?m < 1 / ?a" by linarith
  ultimately have l: "of_int (2 ^ nat (bitlen ?m - 1)) < 1 / ?a" by linarith
  have P: "(0::rat) < of_int (2 ^ nat (bitlen ?m))" "(0::rat) < of_int (2 ^ nat (bitlen ?m - 1))"
    by simp_all
  have lo: "1 / of_int (2 ^ nat (bitlen ?m)) \<le> ?a"
    using u a(1) P(1) by (simp add: field_simps)
  have hi: "?a < 1 / of_int (2 ^ nat (bitlen ?m - 1))"
    using l a(1) P(2) by (simp add: field_simps)
  show ?thesis
    unfolding e p1 p2 using lo hi by simp
qed

lemma round32_error:
  "\<bar>round32 q - q\<bar> \<le> pow2 (max (binade q) (- 126) - 23) / 2"
proof (cases "q = 0")
  case True
  then show ?thesis using pow2_pos[of "max (binade 0) (- 126) - 23"] by (simp add: round32_def)
next
  case False
  let ?u = "pow2 (max (binade q) (- 126) - 23)"
  have u: "0 < ?u" by (rule pow2_pos)
  have "round32 q - q = (of_int (round_half_even (q / ?u)) - q / ?u) * ?u"
    using False u by (simp add: round32_def Let_def algebra_simps)
  then have "\<bar>round32 q - q\<bar> = \<bar>of_int (round_half_even (q / ?u)) - q / ?u\<bar> * ?u"
    using u by (simp add: abs_mult)
  also have "\<dots> \<le> 1 / 2 * ?u"
    using round_half_even_error[of "q / ?u"] u by (intro mult_right_mono) auto
  finally show ?thesis by simp
qed

text \<open>Some roundings: decimal fractions, ties to even above \<open>2^24\<close>, a subnormal.\<close>

lemma round32_examples:
  "round32 (1 / 10) = 13421773 / 134217728"
  "round32 (1 / 3) = 11184811 / 33554432"
  "round32 16777217 = 16777216"
  "round32 16777219 = 16777220"
  "round32 (- (2 / 3)) = - (11184811 / 16777216)"
  "round32 (3 / 2 ^ 150) = 1 / 2 ^ 148"
  by code_simp+

lemma round32_0: "round32 0 = 0"
  by (simp add: round32_def)

lemma round32_1: "round32 1 = 1"
  by code_simp

lemma is_float_0: "is_float 0"
  by (simp add: is_float_def round32_0)

lemma is_float_1: "is_float 1"
  by (simp add: is_float_def round32_1)

lemma fadd_0_0: "fadd 0 0 = 0"
  by (simp add: fadd_def round32_0)

lemma fmul_0_left: "fmul 0 t = 0"
  by (simp add: fmul_def round32_0)

lemma fmul_0_right: "fmul t 0 = 0"
  by (simp add: fmul_def round32_0)

lemma fadd_0_right: "is_float x \<Longrightarrow> fadd x 0 = x"
  by (simp add: fadd_def is_float_def)

lemma fadd_exact: "is_float (x + y) \<Longrightarrow> fadd x y = x + y"
  by (simp add: fadd_def is_float_def)

lemma fsub_exact: "is_float (x - y) \<Longrightarrow> fsub x y = x - y"
  by (simp add: fsub_def is_float_def)

lemma fmul_exact: "is_float (x * y) \<Longrightarrow> fmul x y = x * y"
  by (simp add: fmul_def is_float_def)

lemma fdiv_exact: "y \<noteq> 0 \<Longrightarrow> is_float (x / y) \<Longrightarrow> fdiv x y = Inr (x / y)"
  by (simp add: fdiv_def is_float_def)

lemma float_of_nat_exact: "is_float (of_nat n) \<Longrightarrow> float_of_int (int n) = of_nat n"
  by (simp add: float_of_int_def is_float_def)

section \<open>ParameterInterpolator: the ramp\<close>

lemma upt_1_Suc_Suc: "[1 ..< Suc (Suc n)] = 1 # map Suc [1 ..< Suc n]"
proof -
  have "[1 ..< Suc (Suc n)] = 1 # [Suc 1 ..< Suc (Suc n)]"
    by (rule upt_conv_Cons) simp
  also have "[Suc 1 ..< Suc (Suc n)] = map Suc [1 ..< Suc n]"
    by (rule map_Suc_upt[symmetric])
  finally show ?thesis .
qed

text \<open>When no addition rounds, \<open>n\<close> calls of \<open>Next\<close> return \<open>v + k * inc\<close> for
  \<open>k = 1..n\<close>.\<close>

lemma Nexts_exact:
  "(\<And>k. 1 \<le> k \<Longrightarrow> k \<le> n \<Longrightarrow> is_float (v + of_nat k * inc)) \<Longrightarrow>
   Nexts n \<lparr>pi_state = st, pi_value = v, pi_increment = inc\<rparr>
     = (map (\<lambda>k. v + of_nat k * inc) [1 ..< Suc n],
        \<lparr>pi_state = st, pi_value = v + of_nat n * inc, pi_increment = inc\<rparr>)"
proof (induction n arbitrary: v)
  case 0
  show ?case by simp
next
  case (Suc n)
  have first: "is_float (v + inc)"
    using Suc.prems[of 1] by simp
  have rest: "is_float ((v + inc) + of_nat k * inc)" if "1 \<le> k" "k \<le> n" for k
    using Suc.prems[of "Suc k"] that by (simp add: algebra_simps)
  have IH: "Nexts n \<lparr>pi_state = st, pi_value = v + inc, pi_increment = inc\<rparr>
     = (map (\<lambda>k. (v + inc) + of_nat k * inc) [1 ..< Suc n],
        \<lparr>pi_state = st, pi_value = (v + inc) + of_nat n * inc, pi_increment = inc\<rparr>)"
    by (rule Suc.IH) (rule rest)
  have step: "Next \<lparr>pi_state = st, pi_value = v, pi_increment = inc\<rparr>
      = (v + inc, \<lparr>pi_state = st, pi_value = v + inc, pi_increment = inc\<rparr>)"
    by (simp add: Next_def Let_def fadd_exact first)
  have m: "map (\<lambda>k. v + of_nat k * inc) (map Suc [1 ..< Suc n])
      = map (\<lambda>k. (v + inc) + of_nat k * inc) [1 ..< Suc n]"
    by (simp add: algebra_simps del: upt_Suc)
  have a: "Nexts (Suc n) \<lparr>pi_state = st, pi_value = v, pi_increment = inc\<rparr>
      = ((v + inc) # map (\<lambda>k. (v + inc) + of_nat k * inc) [1 ..< Suc n],
         \<lparr>pi_state = st, pi_value = (v + inc) + of_nat n * inc, pi_increment = inc\<rparr>)"
    by (simp only: Nexts.simps step IH Let_def prod.case)
  have b: "(v + inc) # map (\<lambda>k. (v + inc) + of_nat k * inc) [1 ..< Suc n]
      = map (\<lambda>k. v + of_nat k * inc) [1 ..< Suc (Suc n)]"
    unfolding upt_1_Suc_Suc list.map m by simp
  have c: "(v + inc) + of_nat n * inc = v + of_nat (Suc n) * inc"
    by (simp add: algebra_simps)
  show ?case unfolding a b c ..
qed

lemma ramp_exact:
  assumes N: "0 < n"
    and fN: "is_float (of_nat n)"
    and fd: "is_float (b - m s)"
    and fi: "is_float ((b - m s) / of_nat n)"
    and fs: "list_all is_float (exact_ramp (m s) b n)"
  shows "ramp m s b n = Inr (exact_ramp (m s) b n, m(s := b))"
proof -
  let ?inc = "(b - m s) / of_nat n"
  have ctor: "ParameterInterpolator_by_size m (Some s) b n
      = Inr \<lparr>pi_state = Some s, pi_value = m s, pi_increment = ?inc\<rparr>"
    using N by (simp add: ParameterInterpolator_by_size_def bindF_def deref_def fsub_exact fd
        float_of_nat_exact fN fdiv_exact fi)
  have each: "is_float (m s + of_nat k * ?inc)" if "1 \<le> k" "k \<le> n" for k
  proof -
    have "k \<in> set [1 ..< Suc n]"
      unfolding set_upt using that by simp
    then have "m s + of_nat k * ?inc \<in> set (exact_ramp (m s) b n)"
      unfolding exact_ramp_def set_map by (rule imageI)
    then show ?thesis
      using fs by (simp add: list_all_iff)
  qed
  have nx: "Nexts n \<lparr>pi_state = Some s, pi_value = m s, pi_increment = ?inc\<rparr>
     = (exact_ramp (m s) b n,
        \<lparr>pi_state = Some s, pi_value = m s + of_nat n * ?inc, pi_increment = ?inc\<rparr>)"
    unfolding exact_ramp_def by (rule Nexts_exact) (rule each)
  have fin: "m s + of_nat n * ?inc = b"
    using N by simp
  show ?thesis
    using N by (simp add: ramp_def ctor bindF_def nx fin ParameterInterpolator_dtor_def)
qed

lemma Nexts_length: "length (fst (Nexts n p)) = n"
  by (induction n arbitrary: p) (simp_all add: split_def Let_def)

lemma Nexts_last: "0 < n \<Longrightarrow> pi_value (snd (Nexts n p)) = last (fst (Nexts n p))"
proof (induction n arbitrary: p)
  case 0
  then show ?case by simp
next
  case (Suc n)
  show ?case
  proof (cases n)
    case 0
    then show ?thesis by (simp add: split_def Let_def Next_def)
  next
    case (Suc k)
    then have "fst (Nexts n (snd (Next p))) \<noteq> []"
      using Nexts_length[of n "snd (Next p)"] by auto
    then show ?thesis
      using Suc.IH[of "snd (Next p)"] Suc by (simp add: split_def Let_def)
  qed
qed

lemma Nexts_state: "pi_state (snd (Nexts n p)) = pi_state p"
  by (induction n arbitrary: p) (simp_all add: split_def Let_def Next_def)

lemma ramp_last:
  "0 < n \<Longrightarrow> ramp m s b n = Inr (vs, m') \<Longrightarrow> m' = m(s := last vs) \<and> length vs = n"
  by (auto simp: ramp_def bindF_def ParameterInterpolator_by_size_def deref_def split_def Let_def
      ParameterInterpolator_dtor_def Nexts_last Nexts_state Nexts_length split: sum.splits)

lemma exact_ramp_last: "0 < n \<Longrightarrow> last (exact_ramp a b n) = b"
  by (simp add: exact_ramp_def last_map)

lemma exact_ramp_increasing:
  assumes "0 < n" and "a < b"
  shows "sorted_wrt (<) (exact_ramp a b n)"
proof -
  let ?d = "(b - a) / of_nat n"
  have d: "0 < ?d"
    using assms by simp
  have "sorted_wrt (\<lambda>x y. a + of_nat x * ?d < a + of_nat y * ?d) [1 ..< Suc n]"
  proof (rule sorted_wrt_mono_rel[OF _ sorted_wrt_upt])
    fix x y :: nat
    assume "x < y"
    then have "(of_nat x :: rat) < of_nat y"
      by simp
    then have "of_nat x * ?d < of_nat y * ?d"
      using d by (rule mult_strict_right_mono)
    then show "a + of_nat x * ?d < a + of_nat y * ?d"
      by simp
  qed
  then show ?thesis
    unfolding exact_ramp_def sorted_wrt_map .
qed

lemma exact_ramp_decreasing:
  assumes "0 < n" and "b < a"
  shows "sorted_wrt (>) (exact_ramp a b n)"
proof -
  let ?d = "(b - a) / of_nat n"
  have d: "?d < 0"
    using assms by (simp add: divide_neg_pos)
  have "sorted_wrt (\<lambda>x y. a + of_nat x * ?d > a + of_nat y * ?d) [1 ..< Suc n]"
  proof (rule sorted_wrt_mono_rel[OF _ sorted_wrt_upt])
    fix x y :: nat
    assume "x < y"
    then have "(of_nat x :: rat) < of_nat y"
      by simp
    then have "of_nat y * ?d < of_nat x * ?d"
      using d by (rule mult_strict_right_mono_neg)
    then show "a + of_nat x * ?d > a + of_nat y * ?d"
      by simp
  qed
  then show ?thesis
    unfolding exact_ramp_def sorted_wrt_map .
qed

lemma exact_ramp_constant: "exact_ramp a a n = replicate n a"
  by (simp add: exact_ramp_def map_replicate_const del: upt_Suc)

text \<open>
  Claim C1, as amended. For a state slot holding \<open>a = m s\<close>, a target \<open>b\<close> and a sample
  count \<open>n > 0\<close>: the scope that constructs a size-mode interpolator over the slot, calls
  \<open>Next\<close> \<open>n\<close> times and ends leaves in the slot the value the last call returned.
  When moreover \<open>n\<close>, \<open>b - a\<close>, \<open>(b - a) / n\<close> and every \<open>a + k * (b - a) / n\<close> for
  \<open>k = 1..n\<close> are single-precision values, so that no operation rounds, the calls return
  exactly \<open>a + k * (b - a) / n\<close> for \<open>k = 1..n\<close>, strictly increasing when \<open>a < b\<close>,
  strictly decreasing when \<open>b < a\<close>, constant when \<open>a = b\<close>; the last call returns \<open>b\<close>
  and the slot holds \<open>b\<close> afterwards.
\<close>

theorem size_interpolator_ramp:
  "(0 < n \<and> ramp m s b n = Inr (vs, m') \<longrightarrow> m' = m(s := last vs) \<and> length vs = n) \<and>
   (0 < n \<and> is_float (of_nat n) \<and> is_float (b - m s) \<and> is_float ((b - m s) / of_nat n)
      \<and> list_all is_float (exact_ramp (m s) b n)
    \<longrightarrow> ramp m s b n = Inr (exact_ramp (m s) b n, m(s := b))
        \<and> last (exact_ramp (m s) b n) = b
        \<and> (m s < b \<longrightarrow> sorted_wrt (<) (exact_ramp (m s) b n))
        \<and> (b < m s \<longrightarrow> sorted_wrt (>) (exact_ramp (m s) b n))
        \<and> (m s = b \<longrightarrow> exact_ramp (m s) b n = replicate n b))"
  using ramp_last[of n m s b vs m'] ramp_exact[of n b m s] exact_ramp_last[of n "m s" b]
    exact_ramp_increasing[of n "m s" b] exact_ramp_decreasing[of n b "m s"]
    exact_ramp_constant[of b n]
  by auto

lemma quarter_ramp_floats:
  "is_float (of_nat 4)"
  "is_float (1 - memory_of 0 0)"
  "is_float ((1 - memory_of 0 0) / of_nat 4)"
  "list_all is_float (exact_ramp (memory_of 0 0) 1 4)"
  by code_simp+

lemma quarter_ramp_values: "exact_ramp 0 1 4 = [1 / 4, 1 / 2, 3 / 4, 1]"
  by code_simp

text \<open>From 0 to 1 over 4 samples every value is a float: the ramp is exact.\<close>

theorem size_interpolator_ramp_witness:
  "0 < (4::nat) \<and> is_float (of_nat 4) \<and> is_float (1 - memory_of 0 0)
   \<and> is_float ((1 - memory_of 0 0) / of_nat 4)
   \<and> list_all is_float (exact_ramp (memory_of 0 0) 1 4)
   \<and> memory_of 0 0 < 1
   \<and> ramp (memory_of 0) 0 1 4 = Inr ([1 / 4, 1 / 2, 3 / 4, 1], (memory_of 0)(0 := 1))
   \<and> last [1 / 4, 1 / 2, 3 / 4, 1 :: rat] = 1
   \<and> sorted_wrt (<) [1 / 4, 1 / 2, 3 / 4, 1 :: rat]"
  using size_interpolator_ramp[of 4 "memory_of 0" 0 1 "[1 / 4, 1 / 2, 3 / 4, 1]"
      "(memory_of 0)(0 := 1)"]
    quarter_ramp_floats
  by (simp add: quarter_ramp_values memory_of_def)

lemma third_ramp_steps:
  "fsub 0 1 = - 1"
  "float_of_int 3 = 3"
  "fdiv (- 1) 3 = Inr (- (11184811 / 33554432))"
  "fadd 1 (- (11184811 / 33554432)) = 5592405 / 8388608"
  "fadd (5592405 / 8388608) (- (11184811 / 33554432)) = 11184809 / 33554432"
  "fadd (11184809 / 33554432) (- (11184811 / 33554432)) = - (1 / 16777216)"
  by code_simp+

text \<open>
  Claim C1 as stated fails. From 1 down to 0 over 3 samples the increment is the float
  nearest to \<open>-1/3\<close>, which is below \<open>-1/3\<close>; the third call of \<open>Next\<close> returns \<open>-2^-24\<close>,
  not the target 0, and the destructor writes that value to the slot.
\<close>

theorem size_interpolator_ramp_counterexample:
  "ramp (memory_of 1) 0 0 3
     = Inr ([5592405 / 8388608, 11184809 / 33554432, - (1 / 16777216)],
            (memory_of 1)(0 := - (1 / 16777216)))
   \<and> ramp (memory_of 1) 0 0 3 \<noteq> Inr (exact_ramp 1 0 3, (memory_of 1)(0 := 0))"
  by (simp add: ramp_def ParameterInterpolator_by_size_def bindF_def deref_def memory_of_def
      third_ramp_steps Next_def Let_def numeral_3_eq_3 ParameterInterpolator_dtor_def
      exact_ramp_def)

section \<open>ParameterInterpolator: null state and size 0\<close>

lemma Nexts_default:
  "Nexts k ParameterInterpolator_default = (replicate k 0, ParameterInterpolator_default)"
  by (induction k) (simp_all add: Next_def ParameterInterpolator_default_def fadd_0_0)

lemma Nexts_zero_increment:
  "is_float v \<Longrightarrow> Nexts k \<lparr>pi_state = st, pi_value = v, pi_increment = 0\<rparr>
     = (replicate k v, \<lparr>pi_state = st, pi_value = v, pi_increment = 0\<rparr>)"
  by (induction k) (simp_all add: Next_def fadd_0_right)

text \<open>
  Claim C10. Constructed with a null state pointer, in size mode or in step mode, the
  interpolator is the default-constructed one: no fault occurs, its increment is 0, every
  call of \<open>Next\<close> returns 0, \<open>subsample t\<close> is 0 for every \<open>t\<close>, and the destructor leaves
  the memory as it is. Constructed in size mode with size 0 over a slot \<open>a\<close>, it divides by
  nothing (the constructor returns, with increment 0), and every call of \<open>Next\<close> returns
  the float the slot held.
\<close>

theorem null_interpolator_safe:
  "ParameterInterpolator_by_size m None b n = Inr ParameterInterpolator_default
   \<and> ParameterInterpolator_by_step m None b st = Inr ParameterInterpolator_default
   \<and> pi_increment ParameterInterpolator_default = 0
   \<and> Nexts k ParameterInterpolator_default = (replicate k 0, ParameterInterpolator_default)
   \<and> subsample ParameterInterpolator_default t = 0
   \<and> ParameterInterpolator_dtor m ParameterInterpolator_default = m
   \<and> ParameterInterpolator_by_size m (Some a) b 0
       = Inr \<lparr>pi_state = Some a, pi_value = m a, pi_increment = 0\<rparr>
   \<and> (is_float (m a) \<longrightarrow>
        Nexts k \<lparr>pi_state = Some a, pi_value = m a, pi_increment = 0\<rparr>
          = (replicate k (m a), \<lparr>pi_state = Some a, pi_value = m a, pi_increment = 0\<rparr>))"
  by (simp add: Nexts_default[unfolded ParameterInterpolator_default_def] Nexts_zero_increment
      ParameterInterpolator_by_size_def ParameterInterpolator_by_step_def
      ParameterInterpolator_default_def bindF_def deref_def subsample_def fadd_0_0 fmul_0_left
      ParameterInterpolator_dtor_def)

lemma is_float_quarter: "is_float (1 / 4)"
  by code_simp

theorem null_interpolator_safe_witness:
  "is_float (memory_of (1 / 4) 7)
   \<and> ParameterInterpolator_by_size (memory_of (1 / 4)) (Some 7) 1 0
       = Inr \<lparr>pi_state = Some 7, pi_value = 1 / 4, pi_increment = 0\<rparr>
   \<and> Nexts 3 \<lparr>pi_state = Some 7, pi_value = 1 / 4, pi_increment = 0\<rparr>
       = ([1 / 4, 1 / 4, 1 / 4], \<lparr>pi_state = Some 7, pi_value = 1 / 4, pi_increment = 0\<rparr>)"
  using null_interpolator_safe[of "memory_of (1 / 4)" 1 0 0 3 0 7] is_float_quarter
  by (simp add: memory_of_def numeral_3_eq_3)

section \<open>Index normalisation\<close>

lemma s32_id: "- (2 ^ 31) \<le> x \<Longrightarrow> x < 2 ^ 31 \<Longrightarrow> s32 x = x"
  by (simp add: s32_def)

lemma s32_range: "- (2 ^ 31) \<le> s32 x \<and> s32 x < 2 ^ 31"
proof -
  have "0 \<le> (x + 2 ^ 31) mod 2 ^ 32" "(x + 2 ^ 31) mod 2 ^ 32 < (2 ^ 32 :: int)"
    by simp_all
  then show ?thesis by (simp add: s32_def)
qed

lemma u32_id: "0 \<le> x \<Longrightarrow> x < 2 ^ 32 \<Longrightarrow> u32 x = x"
  by (simp add: u32_def)

lemma u32_range: "0 \<le> u32 x \<and> u32 x < 2 ^ 32"
  by (simp add: u32_def)

lemma wrap_unsigned_mod:
  assumes L: "0 < L"
  shows "0 \<le> p \<Longrightarrow> p < 2 ^ 32 \<Longrightarrow> wrap_unsigned L p = Some (p mod L)"
proof (induction "nat p" arbitrary: p rule: less_induct)
  case less
  show ?case
  proof (cases "L \<le> p")
    case True
    have u: "u32 (p - L) = p - L"
      using True less.prems L by (intro u32_id) auto
    have "wrap_unsigned L (p - L) = Some ((p - L) mod L)"
      using True less.prems L by (intro less.hyps) auto
    then show ?thesis
      using True by (subst wrap_unsigned.simps) (simp add: u)
  next
    case False
    then show ?thesis
      using less.prems by (subst wrap_unsigned.simps) simp
  qed
qed

lemma Write_index_mod:
  assumes "0 < kLooperTotalBufferLength c" "kLooperTotalBufferLength c < 2 ^ 32"
  shows "Write_index c p = Some (u32 p mod kLooperTotalBufferLength c)"
  using assms u32_range[of p]
  by (simp add: Write_index_def u32_id wrap_unsigned_mod)

lemma wrap_down_spec:
  assumes S: "0 < S" "S \<le> B"
  shows "- (2 ^ 31) \<le> p \<Longrightarrow> p < 2 ^ 31 \<Longrightarrow>
    wrap_down B S p = Some (if p < B then p else B - S + (p - B) mod S)"
proof (induction "nat (p + 2 ^ 31)" arbitrary: p rule: less_induct)
  case less
  show ?case
  proof (cases "B \<le> p")
    case True
    have u: "s32 (p - S) = p - S"
      using True less.prems S by (intro s32_id) auto
    have rec: "wrap_down B S (p - S) = Some (if p - S < B then p - S else B - S + (p - S - B) mod S)"
      using True less.prems S by (intro less.hyps) auto
    have val: "(if p - S < B then p - S else B - S + (p - S - B) mod S) = B - S + (p - B) mod S"
    proof (cases "p - S < B")
      case True
      then have "0 \<le> p - B" "p - B < S" using \<open>B \<le> p\<close> by auto
      then have "(p - B) mod S = p - B" by simp
      then show ?thesis using True by simp
    next
      case False
      have "(p - S - B) mod S = (p - B - S) mod S" by (simp add: algebra_simps)
      also have "\<dots> = (p - B) mod S" by simp
      finally show ?thesis using False by simp
    qed
    show ?thesis
      using True by (subst wrap_down.simps) (simp add: u rec val)
  next
    case False
    then show ?thesis
      by (subst wrap_down.simps) simp
  qed
qed

lemma wrap_up_spec:
  assumes S: "0 < S" "B + S \<le> 2 ^ 31"
  shows "- (2 ^ 31) \<le> p \<Longrightarrow> p < 2 ^ 31 \<Longrightarrow>
    wrap_up B S p = Some (if B \<le> p then p else B + (p - B) mod S)"
proof (induction "nat (B - p)" arbitrary: p rule: less_induct)
  case less
  show ?case
  proof (cases "p < B")
    case True
    have u: "s32 (p + S) = p + S"
      using True less.prems S by (intro s32_id) auto
    have rec: "wrap_up B S (p + S) = Some (if B \<le> p + S then p + S else B + (p + S - B) mod S)"
      using True less.prems S by (intro less.hyps) auto
    have val: "(if B \<le> p + S then p + S else B + (p + S - B) mod S) = B + (p - B) mod S"
    proof (cases "B \<le> p + S")
      case True
      then have "0 \<le> p + S - B" "p + S - B < S" using \<open>p < B\<close> by auto
      then have "(p + S - B) mod S = p + S - B" by simp
      moreover have "(p + S - B) mod S = (p - B) mod S"
        by (simp add: algebra_simps) (metis add.commute mod_add_self2 diff_add_eq) 
      ultimately show ?thesis using True by simp
    next
      case False
      have "(p + S - B) mod S = (p - B) mod S"
        by (simp add: algebra_simps) (metis add.commute mod_add_self2 diff_add_eq) 
      then show ?thesis using False by simp
    qed
    show ?thesis
      using True by (subst wrap_up.simps) (simp add: u rec val)
  next
    case False
    then show ?thesis
      by (subst wrap_up.simps) simp
  qed
qed

lemma ReadLeft_index_mod:
  assumes H: "0 < kLooperChannelBufferLength c" "kLooperChannelBufferLength c < 2 ^ 31"
  shows "ReadLeft_index c p = Some (s32 p mod kLooperChannelBufferLength c)"
proof -
  let ?H = "kLooperChannelBufferLength c"
  let ?p = "s32 p"
  let ?r = "if ?p < ?H then ?p else ?H - ?H + (?p - ?H) mod ?H"
  have d: "wrap_down ?H ?H ?p = Some ?r"
    using H s32_range[of p] by (intro wrap_down_spec) auto
  define m where "m = (?p - ?H) mod ?H"
  have mb: "0 \<le> m" "m < ?H"
    unfolding m_def using H by simp_all
  have r_eq: "?r = (if ?p < ?H then ?p else m)"
    by (simp add: m_def)
  have rr: "- (2 ^ 31) \<le> ?r" "?r < 2 ^ 31"
    unfolding r_eq using H s32_range[of p] mb by (simp_all split: if_splits)
  have u: "wrap_up 0 ?H ?r = Some (if 0 \<le> ?r then ?r else 0 + (?r - 0) mod ?H)"
    using H rr by (intro wrap_up_spec) auto
  have v: "(if 0 \<le> ?r then ?r else 0 + (?r - 0) mod ?H) = ?p mod ?H"
  proof (cases "?p < ?H")
    case True
    then show ?thesis using H by (auto simp: mod_pos_pos_trivial)
  next
    case False
    then show ?thesis using H pos_mod_sign[of ?H "?p - ?H"] by auto
  qed
  show ?thesis
    unfolding ReadLeft_index_def d using u v by simp
qed

lemma ReadRight_index_range:
  assumes H: "0 < kLooperChannelBufferLength c"
    and T: "kLooperTotalBufferLength c = 2 * kLooperChannelBufferLength c"
      "kLooperTotalBufferLength c < 2 ^ 31"
  shows "\<exists>j. ReadRight_index c p = Some j \<and> kLooperChannelBufferLength c \<le> j
           \<and> j < kLooperTotalBufferLength c"
proof -
  let ?H = "kLooperChannelBufferLength c"
  let ?T = "kLooperTotalBufferLength c"
  let ?p = "s32 (s32 p + ?H)"
  let ?r = "if ?p < ?T then ?p else ?T - ?H + (?p - ?T) mod ?H"
  have d: "wrap_down ?T ?H ?p = Some ?r"
    using H T s32_range[of "s32 p + ?H"] by (intro wrap_down_spec) auto
  have m: "0 \<le> (?p - ?T) mod ?H" "(?p - ?T) mod ?H < ?H"
    using H by simp_all
  have rr: "- (2 ^ 31) \<le> ?r" "?r < 2 ^ 31" "?r < ?T"
    using H T s32_range[of "s32 p + ?H"] m by (auto split: if_splits)
  let ?j = "if ?H \<le> ?r then ?r else ?H + (?r - ?H) mod ?H"
  have u: "wrap_up ?H ?H ?r = Some ?j"
    using H T rr by (intro wrap_up_spec) auto
  have m2: "0 \<le> (?r - ?H) mod ?H" "(?r - ?H) mod ?H < ?H"
    using H by simp_all
  have j1: "?H \<le> ?j" using m2 by auto
  have j2: "?j < ?T" using m2 rr T by auto
  show ?thesis
    unfolding ReadRight_index_def d using u j1 j2 by simp
qed

section \<open>WriteHead: writes and fades\<close>

lemma WriteHead_Write_eq:
  assumes T: "0 < kLooperTotalBufferLength c" "kLooperTotalBufferLength c < 2 ^ 31"
    and len: "int (length buf) = kLooperTotalBufferLength c"
  shows "WriteHead_Write c xf h buf p v =
     (let pos = u32 p mod kLooperTotalBufferLength c;
          h' = (if wh_doFade h then snd (fade_step c h) else h);
          v' = (if wh_doFade h then xf v (buf ! nat pos) (fst (fade_step c h)) else v)
      in Some (Inr (h', if WRITE_STATUS_INACTIVE \<noteq> wh_status h' then buf[nat pos := v'] else buf)))"
proof -
  let ?pos = "u32 p mod kLooperTotalBufferLength c"
  have idx: "Write_index c p = Some ?pos"
    using T by (intro Write_index_mod) auto
  have rng: "0 \<le> ?pos" "?pos < int (length buf)"
    using T len by simp_all
  show ?thesis
    unfolding WriteHead_Write_def idx
    using rng by (simp add: getElement_def setElement_def bindF_def split_def Let_def)
qed

lemma fade_step_head:
  assumes F: "kLooperFadeSamples c < 2 ^ 31"
    and inv: "head_inv c h" and f: "wh_doFade h"
  shows "snd (fade_step c h) =
     (if wh_fadeIndex h + 1 = kLooperFadeSamples c
      then h\<lparr>wh_fadeIndex := wh_fadeIndex h + 1, wh_doFade := False,
             wh_status := (if wh_status h = WRITE_STATUS_FADE_IN
                           then WRITE_STATUS_ACTIVE else WRITE_STATUS_INACTIVE)\<rparr>
      else h\<lparr>wh_fadeIndex := wh_fadeIndex h + 1\<rparr>)"
proof -
  have "s32 (wh_fadeIndex h + 1) = wh_fadeIndex h + 1"
    using F inv f by (intro s32_id) (auto simp: head_inv_def)
  then show ?thesis
    by (auto simp: fade_step_def Let_def)
qed

lemma head_inv_ctor: "head_inv c WriteHead_ctor"
  by (simp add: head_inv_def WriteHead_ctor_def)

lemma head_inv_Start: "0 < kLooperFadeSamples c \<Longrightarrow> head_inv c h \<Longrightarrow> head_inv c (Start h)"
  by (auto simp: head_inv_def Start_def)

lemma head_inv_Stop: "0 < kLooperFadeSamples c \<Longrightarrow> head_inv c h \<Longrightarrow> head_inv c (Stop h)"
  by (auto simp: head_inv_def Stop_def)

lemma head_inv_fade_step:
  assumes "kLooperFadeSamples c < 2 ^ 31" "head_inv c h" "wh_doFade h"
  shows "head_inv c (snd (fade_step c h))"
  unfolding fade_step_head[OF assms] using assms(2,3)
  by (auto simp: head_inv_def)

lemma WriteHead_Writes_status:
  assumes T: "0 < kLooperTotalBufferLength c" "kLooperTotalBufferLength c < 2 ^ 31"
    and F: "kLooperFadeSamples c < 2 ^ 31"
  shows "int (length buf) = kLooperTotalBufferLength c \<Longrightarrow> head_inv c h \<Longrightarrow>
    \<exists>h' buf'. WriteHead_Writes c xf h buf ws = Some (Inr (h', buf'))
       \<and> int (length buf') = kLooperTotalBufferLength c \<and> head_inv c h'
       \<and> wh_status h' = status_after c h (length ws)"
proof (induction ws arbitrary: h buf)
  case Nil
  then show ?case
    by (auto simp: status_after_def head_inv_def)
next
  case (Cons w ws)
  let ?h1 = "if wh_doFade h then snd (fade_step c h) else h"
  obtain b1 where w1: "WriteHead_Write c xf h buf (fst w) (snd w) = Some (Inr (?h1, b1))"
    and l1: "int (length b1) = kLooperTotalBufferLength c"
    using Cons.prems(1) by (simp add: WriteHead_Write_eq[OF T Cons.prems(1)] Let_def)
  have i1: "head_inv c ?h1"
    using Cons.prems(2) head_inv_fade_step[OF F] by auto
  obtain h' buf' where r: "WriteHead_Writes c xf ?h1 b1 ws = Some (Inr (h', buf'))"
    "int (length buf') = kLooperTotalBufferLength c" "head_inv c h'"
    "wh_status h' = status_after c ?h1 (length ws)"
    using Cons.IH[OF l1 i1] by blast
  have st: "status_after c ?h1 (length ws) = status_after c h (length (w # ws))"
  proof (cases "wh_doFade h")
    case False
    then show ?thesis using Cons.prems(2) by (auto simp: status_after_def head_inv_def)
  next
    case True
    show ?thesis
      using True Cons.prems(2)
      by (auto simp: fade_step_head[OF F Cons.prems(2) True] status_after_def head_inv_def)
  qed
  show ?case
    using r st by (simp add: w1 bindR_def)
qed

lemma WriteHead_calls_inv:
  assumes T: "0 < kLooperTotalBufferLength c" "kLooperTotalBufferLength c < 2 ^ 31"
    and F: "0 < kLooperFadeSamples c" "kLooperFadeSamples c < 2 ^ 31"
  shows "int (length buf) = kLooperTotalBufferLength c \<Longrightarrow> head_inv c h \<Longrightarrow>
    \<exists>h' buf'. WriteHead_calls c xf h buf cs = Some (Inr (h', buf'))
       \<and> int (length buf') = kLooperTotalBufferLength c \<and> head_inv c h'"
proof (induction cs arbitrary: h buf)
  case Nil
  then show ?case by simp
next
  case (Cons a cs)
  show ?case
  proof (cases a)
    case CallStart
    then show ?thesis
      using Cons.IH[OF Cons.prems(1) head_inv_Start[OF F(1) Cons.prems(2)]] by simp
  next
    case CallStop
    then show ?thesis
      using Cons.IH[OF Cons.prems(1) head_inv_Stop[OF F(1) Cons.prems(2)]] by simp
  next
    case (CallWrite p v)
    let ?h1 = "if wh_doFade h then snd (fade_step c h) else h"
    obtain b1 where w1: "WriteHead_Write c xf h buf p v = Some (Inr (?h1, b1))"
      and l1: "int (length b1) = kLooperTotalBufferLength c"
      using Cons.prems(1) by (simp add: WriteHead_Write_eq[OF T Cons.prems(1)] Let_def)
    have i1: "head_inv c ?h1"
      using Cons.prems(2) head_inv_fade_step[OF F(2)] by auto
    show ?thesis
      using Cons.IH[OF l1 i1] CallWrite by (simp add: w1 bindR_def)
  qed
qed

lemma small_looper_fields:
  "kLooperTotalBufferLength small_looper = 8"
  "kLooperChannelBufferLength small_looper = 4"
  "kLooperFadeSamples small_looper = 4"
  "kLooperFadeSamplesR small_looper = 1 / 4"
  "kLooperClearBlockSize small_looper = 2"
  "kLooperClearBlockTypeSize small_looper = 8"
  "kLooperNoiseLevel small_looper = 1 / 2"
  by (simp_all add: small_looper_def)

lemma LinearCrossFade_new: "LinearCrossFade 1 old 0 = 1"
  by (simp add: LinearCrossFade_def fsub_def fmul_def fadd_def round32_0 round32_1)

lemma small_looper_buffer:
  "lb_buffer (LooperBuffer_ctor small_looper (steady_noise 1)) = replicate 8 (1 / 2)"
  by code_simp

lemma small_looper_ctor:
  "LooperBuffer_ctor small_looper (steady_noise 1)
     = \<lparr>lb_buffer = replicate 8 (1 / 2), lb_clearBlock = 0,
        lb_left = WriteHead_ctor, lb_right = WriteHead_ctor\<rparr>"
  using small_looper_buffer by (simp add: LooperBuffer_ctor_def)

text \<open>
  Claim C3. Let \<open>h\<close> be the state of a write head reached from its constructor by any
  calls of \<open>Start\<close>, \<open>Stop\<close> and \<open>Write\<close>, the fade length being positive. \<open>Start\<close>
  leaves \<open>h\<close> unchanged unless it is INACTIVE, and \<open>Stop\<close> leaves it unchanged unless it is
  ACTIVE. After \<open>Start\<close> from INACTIVE the status is FADE_IN for fewer writes than the
  fade length and ACTIVE from exactly that many writes on; after \<open>Stop\<close> from ACTIVE it is
  FADE_OUT and then INACTIVE likewise; in the middle of a fade the writes left are the
  fade length less the fade index. The status depends on the number of writes only, not on
  the positions and values written, the buffer or the crossfade function.
\<close>

theorem WriteHead_fade_protocol:
  assumes T: "0 < kLooperTotalBufferLength c" "kLooperTotalBufferLength c < 2 ^ 31"
    and F: "0 < kLooperFadeSamples c" "kLooperFadeSamples c < 2 ^ 31"
    and len: "int (length buf0) = kLooperTotalBufferLength c"
    and run: "WriteHead_calls c xf WriteHead_ctor buf0 cs = Some (Inr (h, buf))"
  shows "(wh_status h \<noteq> WRITE_STATUS_INACTIVE \<longrightarrow> Start h = h)
    \<and> (wh_status h \<noteq> WRITE_STATUS_ACTIVE \<longrightarrow> Stop h = h)
    \<and> (wh_status h = WRITE_STATUS_INACTIVE \<longrightarrow>
         (\<exists>h' buf'. WriteHead_Writes c xf (Start h) buf ws = Some (Inr (h', buf'))
            \<and> wh_status h' = (if int (length ws) < kLooperFadeSamples c
                               then WRITE_STATUS_FADE_IN else WRITE_STATUS_ACTIVE)))
    \<and> (wh_status h = WRITE_STATUS_ACTIVE \<longrightarrow>
         (\<exists>h' buf'. WriteHead_Writes c xf (Stop h) buf ws = Some (Inr (h', buf'))
            \<and> wh_status h' = (if int (length ws) < kLooperFadeSamples c
                               then WRITE_STATUS_FADE_OUT else WRITE_STATUS_INACTIVE)))
    \<and> (wh_status h = WRITE_STATUS_FADE_IN \<longrightarrow>
         0 \<le> wh_fadeIndex h \<and> wh_fadeIndex h < kLooperFadeSamples c
         \<and> (\<exists>h' buf'. WriteHead_Writes c xf h buf ws = Some (Inr (h', buf'))
            \<and> wh_status h' = (if int (length ws) < kLooperFadeSamples c - wh_fadeIndex h
                               then WRITE_STATUS_FADE_IN else WRITE_STATUS_ACTIVE)))
    \<and> (wh_status h = WRITE_STATUS_FADE_OUT \<longrightarrow>
         0 \<le> wh_fadeIndex h \<and> wh_fadeIndex h < kLooperFadeSamples c
         \<and> (\<exists>h' buf'. WriteHead_Writes c xf h buf ws = Some (Inr (h', buf'))
            \<and> wh_status h' = (if int (length ws) < kLooperFadeSamples c - wh_fadeIndex h
                               then WRITE_STATUS_FADE_OUT else WRITE_STATUS_INACTIVE)))"
proof -
  obtain h0 b0 where "WriteHead_calls c xf WriteHead_ctor buf0 cs = Some (Inr (h0, b0))"
    "int (length b0) = kLooperTotalBufferLength c" "head_inv c h0"
    using WriteHead_calls_inv[OF T F len head_inv_ctor] by blast
  with run have lb: "int (length buf) = kLooperTotalBufferLength c" and inv: "head_inv c h"
    by simp_all
  have A: "\<exists>h' buf'. WriteHead_Writes c xf g buf ws = Some (Inr (h', buf'))
       \<and> wh_status h' = status_after c g (length ws)" if "head_inv c g" for g
    using WriteHead_Writes_status[OF T F(2) lb that] by blast
  have s1: "wh_status h \<noteq> WRITE_STATUS_INACTIVE \<longrightarrow> Start h = h"
    by (simp add: Start_def)
  have s2: "wh_status h \<noteq> WRITE_STATUS_ACTIVE \<longrightarrow> Stop h = h"
    by (simp add: Stop_def)
  have s3: "wh_status h = WRITE_STATUS_INACTIVE \<longrightarrow>
         (\<exists>h' buf'. WriteHead_Writes c xf (Start h) buf ws = Some (Inr (h', buf'))
            \<and> wh_status h' = (if int (length ws) < kLooperFadeSamples c
                               then WRITE_STATUS_FADE_IN else WRITE_STATUS_ACTIVE))"
    using A[OF head_inv_Start[OF F(1) inv]] by (auto simp: status_after_def Start_def)
  have s4: "wh_status h = WRITE_STATUS_ACTIVE \<longrightarrow>
         (\<exists>h' buf'. WriteHead_Writes c xf (Stop h) buf ws = Some (Inr (h', buf'))
            \<and> wh_status h' = (if int (length ws) < kLooperFadeSamples c
                               then WRITE_STATUS_FADE_OUT else WRITE_STATUS_INACTIVE))"
    using A[OF head_inv_Stop[OF F(1) inv]] by (auto simp: status_after_def Stop_def)
  have s5: "wh_status h = WRITE_STATUS_FADE_IN \<longrightarrow>
         0 \<le> wh_fadeIndex h \<and> wh_fadeIndex h < kLooperFadeSamples c
         \<and> (\<exists>h' buf'. WriteHead_Writes c xf h buf ws = Some (Inr (h', buf'))
            \<and> wh_status h' = (if int (length ws) < kLooperFadeSamples c - wh_fadeIndex h
                               then WRITE_STATUS_FADE_IN else WRITE_STATUS_ACTIVE))"
    using A[OF inv] inv by (auto simp: status_after_def head_inv_def)
  have s6: "wh_status h = WRITE_STATUS_FADE_OUT \<longrightarrow>
         0 \<le> wh_fadeIndex h \<and> wh_fadeIndex h < kLooperFadeSamples c
         \<and> (\<exists>h' buf'. WriteHead_Writes c xf h buf ws = Some (Inr (h', buf'))
            \<and> wh_status h' = (if int (length ws) < kLooperFadeSamples c - wh_fadeIndex h
                               then WRITE_STATUS_FADE_OUT else WRITE_STATUS_INACTIVE))"
    using A[OF inv] inv by (auto simp: status_after_def head_inv_def)
  show ?thesis
    using s1 s2 s3 s4 s5 s6 by blast
qed

text \<open>A head started and written to once, with a fade of 4: two more writes leave it
  fading in, the third completes the fade.\<close>

theorem WriteHead_fade_protocol_witness:
  "0 < kLooperTotalBufferLength small_looper \<and> kLooperTotalBufferLength small_looper < 2 ^ 31
   \<and> 0 < kLooperFadeSamples small_looper \<and> kLooperFadeSamples small_looper < 2 ^ 31
   \<and> int (length (replicate 8 (0::rat))) = kLooperTotalBufferLength small_looper
   \<and> WriteHead_calls small_looper LinearCrossFade WriteHead_ctor (replicate 8 0)
        [CallStart, CallWrite 0 1]
      = Some (Inr (\<lparr>wh_status = WRITE_STATUS_FADE_IN, wh_fadeIndex = 1, wh_doFade = True\<rparr>,
                   replicate 8 0))
   \<and> Start \<lparr>wh_status = WRITE_STATUS_FADE_IN, wh_fadeIndex = 1, wh_doFade = True\<rparr>
      = \<lparr>wh_status = WRITE_STATUS_FADE_IN, wh_fadeIndex = 1, wh_doFade = True\<rparr>
   \<and> (\<exists>h' buf'. WriteHead_Writes small_looper LinearCrossFade
          \<lparr>wh_status = WRITE_STATUS_FADE_IN, wh_fadeIndex = 1, wh_doFade = True\<rparr>
          (replicate 8 0) [(0, 1), (0, 1), (0, 1)] = Some (Inr (h', buf'))
        \<and> wh_status h' = WRITE_STATUS_ACTIVE)
   \<and> (\<exists>h' buf'. WriteHead_Writes small_looper LinearCrossFade
          \<lparr>wh_status = WRITE_STATUS_FADE_IN, wh_fadeIndex = 1, wh_doFade = True\<rparr>
          (replicate 8 0) [(0, 1), (0, 1)] = Some (Inr (h', buf'))
        \<and> wh_status h' = WRITE_STATUS_FADE_IN)"
proof -
  have h: "0 < kLooperTotalBufferLength small_looper"
    "kLooperTotalBufferLength small_looper < 2 ^ 31"
    "0 < kLooperFadeSamples small_looper" "kLooperFadeSamples small_looper < 2 ^ 31"
    "int (length (replicate 8 (0::rat))) = kLooperTotalBufferLength small_looper"
    by (simp_all add: small_looper_fields)
  have r: "WriteHead_calls small_looper LinearCrossFade WriteHead_ctor (replicate 8 0)
        [CallStart, CallWrite 0 1]
      = Some (Inr (\<lparr>wh_status = WRITE_STATUS_FADE_IN, wh_fadeIndex = 1, wh_doFade = True\<rparr>,
                   replicate 8 0))"
    by code_simp
  show ?thesis
    using WriteHead_fade_protocol[OF h r, of "[(0, 1), (0, 1), (0, 1)]"]
      WriteHead_fade_protocol[OF h r, of "[(0, 1), (0, 1)]"] h r
    by (simp add: small_looper_fields)
qed

section \<open>LooperBuffer: recording with a fade of 4 samples\<close>

lemma quarter_products:
  "fmul (float_of_int 0) (1 / 4) = 0"
  "fmul (float_of_int 1) (1 / 4) = 1 / 4"
  "fmul (float_of_int 2) (1 / 4) = 1 / 2"
  "fmul (float_of_int 3) (1 / 4) = 3 / 4"
  "fsub 1 0 = 1"
  "fsub 1 (1 / 4) = 3 / 4"
  "fsub 1 (1 / 2) = 1 / 2"
  "fsub 1 (3 / 4) = 1 / 4"
  by code_simp+

lemma s32_small: "s32 1 = 1" "s32 2 = 2" "s32 3 = 3" "s32 4 = 4"
  by (simp_all add: s32_def)

lemma fade_in_steps:
  assumes "kLooperFadeSamples c = 4" "kLooperFadeSamplesR c = 1 / 4"
  shows "fade_step c \<lparr>wh_status = WRITE_STATUS_FADE_IN, wh_fadeIndex = 0, wh_doFade = True\<rparr>
      = (1, \<lparr>wh_status = WRITE_STATUS_FADE_IN, wh_fadeIndex = 1, wh_doFade = True\<rparr>)"
    "fade_step c \<lparr>wh_status = WRITE_STATUS_FADE_IN, wh_fadeIndex = 1, wh_doFade = True\<rparr>
      = (3 / 4, \<lparr>wh_status = WRITE_STATUS_FADE_IN, wh_fadeIndex = 2, wh_doFade = True\<rparr>)"
    "fade_step c \<lparr>wh_status = WRITE_STATUS_FADE_IN, wh_fadeIndex = 2, wh_doFade = True\<rparr>
      = (1 / 2, \<lparr>wh_status = WRITE_STATUS_FADE_IN, wh_fadeIndex = 3, wh_doFade = True\<rparr>)"
    "fade_step c \<lparr>wh_status = WRITE_STATUS_FADE_IN, wh_fadeIndex = 3, wh_doFade = True\<rparr>
      = (0, \<lparr>wh_status = WRITE_STATUS_ACTIVE, wh_fadeIndex = 4, wh_doFade = False\<rparr>)"
  unfolding fade_step_def assms
  by (simp_all add: Let_def quarter_products s32_small float_of_bool_def)

lemma fade_out_steps:
  assumes "kLooperFadeSamples c = 4" "kLooperFadeSamplesR c = 1 / 4"
  shows "fade_step c \<lparr>wh_status = WRITE_STATUS_FADE_OUT, wh_fadeIndex = 0, wh_doFade = True\<rparr>
      = (0, \<lparr>wh_status = WRITE_STATUS_FADE_OUT, wh_fadeIndex = 1, wh_doFade = True\<rparr>)"
    "fade_step c \<lparr>wh_status = WRITE_STATUS_FADE_OUT, wh_fadeIndex = 1, wh_doFade = True\<rparr>
      = (1 / 4, \<lparr>wh_status = WRITE_STATUS_FADE_OUT, wh_fadeIndex = 2, wh_doFade = True\<rparr>)"
    "fade_step c \<lparr>wh_status = WRITE_STATUS_FADE_OUT, wh_fadeIndex = 2, wh_doFade = True\<rparr>
      = (1 / 2, \<lparr>wh_status = WRITE_STATUS_FADE_OUT, wh_fadeIndex = 3, wh_doFade = True\<rparr>)"
    "fade_step c \<lparr>wh_status = WRITE_STATUS_FADE_OUT, wh_fadeIndex = 3, wh_doFade = True\<rparr>
      = (1, \<lparr>wh_status = WRITE_STATUS_INACTIVE, wh_fadeIndex = 4, wh_doFade = False\<rparr>)"
  unfolding fade_step_def assms
  by (simp_all add: Let_def quarter_products s32_small float_of_bool_def)

text \<open>A stereo write at position 0 when both heads are in the same state.\<close>

lemma LooperBuffer_Write_0:
  assumes H: "0 < kLooperChannelBufferLength c"
    and T: "kLooperTotalBufferLength c = 2 * kLooperChannelBufferLength c"
      "kLooperTotalBufferLength c < 2 ^ 31"
    and len: "int (length (lb_buffer lb)) = kLooperTotalBufferLength c"
    and same: "lb_left lb = h" "lb_right lb = h"
  shows "\<exists>lb'. LooperBuffer_Write c xf lb 0 l r = Some (Inr lb')
     \<and> int (length (lb_buffer lb')) = kLooperTotalBufferLength c
     \<and> lb_left lb' = (if wh_doFade h then snd (fade_step c h) else h)
     \<and> lb_right lb' = (if wh_doFade h then snd (fade_step c h) else h)
     \<and> lb_clearBlock lb' = lb_clearBlock lb
     \<and> lb_buffer lb' ! 0 =
         (if WRITE_STATUS_INACTIVE \<noteq> wh_status (if wh_doFade h then snd (fade_step c h) else h)
          then (if wh_doFade h then xf l (lb_buffer lb ! 0) (fst (fade_step c h)) else l)
          else lb_buffer lb ! 0)"
proof -
  let ?T = "kLooperTotalBufferLength c"
  let ?H = "kLooperChannelBufferLength c"
  have T0: "0 < ?T" using H T by simp
  have p0: "u32 (u32 0) mod ?T = 0" by (simp add: u32_def)
  have uh: "u32 ?H = ?H" using H T by (intro u32_id) auto
  have pH: "u32 (u32 (u32 0 + u32 ?H)) mod ?T = ?H"
    using H T by (simp add: uh u32_def)
  let ?h' = "if wh_doFade h then snd (fade_step c h) else h"
  let ?vl = "if wh_doFade h then xf l (lb_buffer lb ! 0) (fst (fade_step c h)) else l"
  let ?b1 = "if WRITE_STATUS_INACTIVE \<noteq> wh_status ?h' then (lb_buffer lb)[0 := ?vl] else lb_buffer lb"
  have w1: "WriteHead_Write c xf h (lb_buffer lb) (u32 0) l = Some (Inr (?h', ?b1))"
    unfolding WriteHead_Write_eq[OF T0 T(2) len] p0 by (simp add: Let_def)
  have l1: "int (length ?b1) = ?T" using len by simp
  let ?vr = "if wh_doFade h then xf r (?b1 ! nat ?H) (fst (fade_step c h)) else r"
  let ?b2 = "if WRITE_STATUS_INACTIVE \<noteq> wh_status ?h' then ?b1[nat ?H := ?vr] else ?b1"
  have w2: "WriteHead_Write c xf h ?b1 (u32 (u32 0 + u32 ?H)) r = Some (Inr (?h', ?b2))"
    unfolding WriteHead_Write_eq[OF T0 T(2) l1] pH by (simp add: Let_def)
  have l2: "int (length ?b2) = ?T" using len by simp
  have nz: "nat ?H \<noteq> 0" using H by simp
  have "0 < length (lb_buffer lb)" using len T0 by auto
  then have v0: "?b2 ! 0 = (if WRITE_STATUS_INACTIVE \<noteq> wh_status ?h' then ?vl else lb_buffer lb ! 0)"
    using nz by (simp add: nth_list_update)
  show ?thesis
    unfolding LooperBuffer_Write_def same
    using l2 v0 by (simp add: w1 w2 bindR_def del: length_list_update)
qed

text \<open>
  Claim C2, as amended. For a LooperBuffer whose fade length is 4 samples (and whose
  reciprocal constant is 1/4), both heads inactive: after \<open>StartRecording\<close>, the four calls
  \<open>Write(0, 1.0, 1.0)\<close> pass the crossfade positions 1, 3/4, 1/2 and 0 (the weight of the
  old content of the buffer), so the content at index 0 is in turn the crossfade of 1.0
  with the old content at 1, at 3/4 and at 1/2, and exactly 1.0 after the fourth write,
  for any crossfade function that returns the new value at position 0. \<open>IsRecording\<close> is
  true after each of these writes, after the following \<open>StopRecording\<close> and after each of
  the next three writes, and false after the fourth.
\<close>

theorem looper_fade_scenario:
  assumes H: "0 < kLooperChannelBufferLength c"
    and T: "kLooperTotalBufferLength c = 2 * kLooperChannelBufferLength c"
      "kLooperTotalBufferLength c < 2 ^ 31"
    and F: "kLooperFadeSamples c = 4" "kLooperFadeSamplesR c = 1 / 4"
    and len: "int (length (lb_buffer lb0)) = kLooperTotalBufferLength c"
    and idle: "wh_status (lb_left lb0) = WRITE_STATUS_INACTIVE"
      "wh_status (lb_right lb0) = WRITE_STATUS_INACTIVE"
    and xf0: "\<And>old. xf 1 old 0 = 1"
  shows "fade_positions c 4 (lb_left (StartRecording lb0)) = [1, 3 / 4, 1 / 2, 0]
    \<and> (\<exists>lb1 lb2 lb3 lb4 lb5 lb6 lb7 lb8.
          LooperBuffer_Write c xf (StartRecording lb0) 0 1 1 = Some (Inr lb1)
        \<and> LooperBuffer_Write c xf lb1 0 1 1 = Some (Inr lb2)
        \<and> LooperBuffer_Write c xf lb2 0 1 1 = Some (Inr lb3)
        \<and> LooperBuffer_Write c xf lb3 0 1 1 = Some (Inr lb4)
        \<and> lb_buffer lb1 ! 0 = xf 1 (lb_buffer lb0 ! 0) 1
        \<and> lb_buffer lb2 ! 0 = xf 1 (lb_buffer lb1 ! 0) (3 / 4)
        \<and> lb_buffer lb3 ! 0 = xf 1 (lb_buffer lb2 ! 0) (1 / 2)
        \<and> lb_buffer lb4 ! 0 = 1
        \<and> IsRecording lb1 \<and> IsRecording lb2 \<and> IsRecording lb3 \<and> IsRecording lb4
        \<and> IsRecording (StopRecording lb4)
        \<and> LooperBuffer_Write c xf (StopRecording lb4) 0 va wa = Some (Inr lb5)
        \<and> LooperBuffer_Write c xf lb5 0 vb wb = Some (Inr lb6)
        \<and> LooperBuffer_Write c xf lb6 0 vc wc = Some (Inr lb7)
        \<and> LooperBuffer_Write c xf lb7 0 vd wd = Some (Inr lb8)
        \<and> IsRecording lb5 \<and> IsRecording lb6 \<and> IsRecording lb7 \<and> \<not> IsRecording lb8)"
proof -
  note fi = fade_in_steps[OF F]
  note fo = fade_out_steps[OF F]
  let ?s = "StartRecording lb0"
  have s_heads: "lb_left ?s = \<lparr>wh_status = WRITE_STATUS_FADE_IN, wh_fadeIndex = 0, wh_doFade = True\<rparr>" "lb_right ?s = \<lparr>wh_status = WRITE_STATUS_FADE_IN, wh_fadeIndex = 0, wh_doFade = True\<rparr>"
    using idle by (simp_all add: StartRecording_def Start_def)
  have s_len: "int (length (lb_buffer ?s)) = kLooperTotalBufferLength c"
    using len by (simp add: StartRecording_def)
  have s_buf: "lb_buffer ?s = lb_buffer lb0"
    by (simp add: StartRecording_def)
  have pos: "fade_positions c 4 (lb_left ?s) = [1, 3 / 4, 1 / 2, 0]"
    unfolding s_heads by (simp add: numeral_eq_Suc fi)
  obtain lb1 where w1: "LooperBuffer_Write c xf ?s 0 1 1 = Some (Inr lb1)"
    and n1: "int (length (lb_buffer lb1)) = kLooperTotalBufferLength c"
    and h1: "lb_left lb1 = \<lparr>wh_status = WRITE_STATUS_FADE_IN, wh_fadeIndex = 1, wh_doFade = True\<rparr>" "lb_right lb1 = \<lparr>wh_status = WRITE_STATUS_FADE_IN, wh_fadeIndex = 1, wh_doFade = True\<rparr>"
    and b1: "lb_buffer lb1 ! 0 = xf 1 (lb_buffer ?s ! 0) 1"
    using LooperBuffer_Write_0[OF H T s_len s_heads, of xf 1 1] by (auto simp: fi)
  obtain lb2 where w2: "LooperBuffer_Write c xf lb1 0 1 1 = Some (Inr lb2)"
    and n2: "int (length (lb_buffer lb2)) = kLooperTotalBufferLength c"
    and h2: "lb_left lb2 = \<lparr>wh_status = WRITE_STATUS_FADE_IN, wh_fadeIndex = 2, wh_doFade = True\<rparr>" "lb_right lb2 = \<lparr>wh_status = WRITE_STATUS_FADE_IN, wh_fadeIndex = 2, wh_doFade = True\<rparr>"
    and b2: "lb_buffer lb2 ! 0 = xf 1 (lb_buffer lb1 ! 0) (3 / 4)"
    using LooperBuffer_Write_0[OF H T n1 h1, of xf 1 1] by (auto simp: fi)
  obtain lb3 where w3: "LooperBuffer_Write c xf lb2 0 1 1 = Some (Inr lb3)"
    and n3: "int (length (lb_buffer lb3)) = kLooperTotalBufferLength c"
    and h3: "lb_left lb3 = \<lparr>wh_status = WRITE_STATUS_FADE_IN, wh_fadeIndex = 3, wh_doFade = True\<rparr>" "lb_right lb3 = \<lparr>wh_status = WRITE_STATUS_FADE_IN, wh_fadeIndex = 3, wh_doFade = True\<rparr>"
    and b3: "lb_buffer lb3 ! 0 = xf 1 (lb_buffer lb2 ! 0) (1 / 2)"
    using LooperBuffer_Write_0[OF H T n2 h2, of xf 1 1] by (auto simp: fi)
  obtain lb4 where w4: "LooperBuffer_Write c xf lb3 0 1 1 = Some (Inr lb4)"
    and n4: "int (length (lb_buffer lb4)) = kLooperTotalBufferLength c"
    and h4: "lb_left lb4 = \<lparr>wh_status = WRITE_STATUS_ACTIVE, wh_fadeIndex = 4, wh_doFade = False\<rparr>" "lb_right lb4 = \<lparr>wh_status = WRITE_STATUS_ACTIVE, wh_fadeIndex = 4, wh_doFade = False\<rparr>"
    and b4: "lb_buffer lb4 ! 0 = xf 1 (lb_buffer lb3 ! 0) 0"
    using LooperBuffer_Write_0[OF H T n3 h3, of xf 1 1] by (auto simp: fi)
  let ?t = "StopRecording lb4"
  have t_heads: "lb_left ?t = \<lparr>wh_status = WRITE_STATUS_FADE_OUT, wh_fadeIndex = 0, wh_doFade = True\<rparr>" "lb_right ?t = \<lparr>wh_status = WRITE_STATUS_FADE_OUT, wh_fadeIndex = 0, wh_doFade = True\<rparr>"
    using h4 by (simp_all add: StopRecording_def Stop_def)
  have t_len: "int (length (lb_buffer ?t)) = kLooperTotalBufferLength c"
    using n4 by (simp add: StopRecording_def)
  obtain lb5 where w5: "LooperBuffer_Write c xf ?t 0 va wa = Some (Inr lb5)"
    and n5: "int (length (lb_buffer lb5)) = kLooperTotalBufferLength c"
    and h5: "lb_left lb5 = \<lparr>wh_status = WRITE_STATUS_FADE_OUT, wh_fadeIndex = 1, wh_doFade = True\<rparr>" "lb_right lb5 = \<lparr>wh_status = WRITE_STATUS_FADE_OUT, wh_fadeIndex = 1, wh_doFade = True\<rparr>"
    using LooperBuffer_Write_0[OF H T t_len t_heads, of xf va wa] by (auto simp: fo)
  obtain lb6 where w6: "LooperBuffer_Write c xf lb5 0 vb wb = Some (Inr lb6)"
    and n6: "int (length (lb_buffer lb6)) = kLooperTotalBufferLength c"
    and h6: "lb_left lb6 = \<lparr>wh_status = WRITE_STATUS_FADE_OUT, wh_fadeIndex = 2, wh_doFade = True\<rparr>" "lb_right lb6 = \<lparr>wh_status = WRITE_STATUS_FADE_OUT, wh_fadeIndex = 2, wh_doFade = True\<rparr>"
    using LooperBuffer_Write_0[OF H T n5 h5, of xf vb wb] by (auto simp: fo)
  obtain lb7 where w7: "LooperBuffer_Write c xf lb6 0 vc wc = Some (Inr lb7)"
    and n7: "int (length (lb_buffer lb7)) = kLooperTotalBufferLength c"
    and h7: "lb_left lb7 = \<lparr>wh_status = WRITE_STATUS_FADE_OUT, wh_fadeIndex = 3, wh_doFade = True\<rparr>" "lb_right lb7 = \<lparr>wh_status = WRITE_STATUS_FADE_OUT, wh_fadeIndex = 3, wh_doFade = True\<rparr>"
    using LooperBuffer_Write_0[OF H T n6 h6, of xf vc wc] by (auto simp: fo)
  obtain lb8 where w8: "LooperBuffer_Write c xf lb7 0 vd wd = Some (Inr lb8)"
    and n8: "int (length (lb_buffer lb8)) = kLooperTotalBufferLength c"
    and h8: "lb_left lb8 = \<lparr>wh_status = WRITE_STATUS_INACTIVE, wh_fadeIndex = 4, wh_doFade = False\<rparr>" "lb_right lb8 = \<lparr>wh_status = WRITE_STATUS_INACTIVE, wh_fadeIndex = 4, wh_doFade = False\<rparr>"
    using LooperBuffer_Write_0[OF H T n7 h7, of xf vd wd] by (auto simp: fo)
  have rec: "IsRecording lb1" "IsRecording lb2" "IsRecording lb3" "IsRecording lb4"
    "IsRecording ?t" "IsRecording lb5" "IsRecording lb6" "IsRecording lb7" "\<not> IsRecording lb8"
    by (simp_all add: IsRecording_def IsWriting_def h1 h2 h3 h4 t_heads h5 h6 h7 h8)
  have end1: "lb_buffer lb4 ! 0 = 1"
    using b4 by (simp add: xf0)
  show ?thesis
    using pos w1 w2 w3 w4 b1[unfolded s_buf] b2 b3 end1 rec w5 w6 w7 w8 by blast
qed

text \<open>The scenario on a buffer of 8 floats with the linear crossfade.\<close>

theorem looper_fade_scenario_witness:
  "0 < kLooperChannelBufferLength small_looper
   \<and> kLooperTotalBufferLength small_looper = 2 * kLooperChannelBufferLength small_looper
   \<and> kLooperTotalBufferLength small_looper < 2 ^ 31
   \<and> kLooperFadeSamples small_looper = 4 \<and> kLooperFadeSamplesR small_looper = 1 / 4
   \<and> int (length (lb_buffer (LooperBuffer_ctor small_looper (steady_noise 1))))
        = kLooperTotalBufferLength small_looper
   \<and> wh_status (lb_left (LooperBuffer_ctor small_looper (steady_noise 1))) = WRITE_STATUS_INACTIVE
   \<and> wh_status (lb_right (LooperBuffer_ctor small_looper (steady_noise 1))) = WRITE_STATUS_INACTIVE
   \<and> (\<forall>old. LinearCrossFade 1 old 0 = 1)
   \<and> (\<exists>lb1 lb2 lb3 lb4.
          LooperBuffer_Write small_looper LinearCrossFade
            (StartRecording (LooperBuffer_ctor small_looper (steady_noise 1))) 0 1 1 = Some (Inr lb1)
        \<and> LooperBuffer_Write small_looper LinearCrossFade lb1 0 1 1 = Some (Inr lb2)
        \<and> LooperBuffer_Write small_looper LinearCrossFade lb2 0 1 1 = Some (Inr lb3)
        \<and> LooperBuffer_Write small_looper LinearCrossFade lb3 0 1 1 = Some (Inr lb4)
        \<and> lb_buffer lb4 ! 0 = 1 \<and> IsRecording lb4)"
proof -
  have h: "0 < kLooperChannelBufferLength small_looper"
    "kLooperTotalBufferLength small_looper = 2 * kLooperChannelBufferLength small_looper"
    "kLooperTotalBufferLength small_looper < 2 ^ 31"
    "kLooperFadeSamples small_looper = 4" "kLooperFadeSamplesR small_looper = 1 / 4"
    "int (length (lb_buffer (LooperBuffer_ctor small_looper (steady_noise 1))))
        = kLooperTotalBufferLength small_looper"
    "wh_status (lb_left (LooperBuffer_ctor small_looper (steady_noise 1))) = WRITE_STATUS_INACTIVE"
    "wh_status (lb_right (LooperBuffer_ctor small_looper (steady_noise 1))) = WRITE_STATUS_INACTIVE"
    by (simp_all add: small_looper_fields small_looper_ctor WriteHead_ctor_def)
  show ?thesis
    using looper_fade_scenario[of small_looper "LooperBuffer_ctor small_looper (steady_noise 1)"
        LinearCrossFade 0 0 0 0 0 0 0 0, OF h LinearCrossFade_new] h LinearCrossFade_new
    by blast
qed

text \<open>
  Claim C2 as stated fails: the crossfade positions of the four writes are 1, 3/4, 1/2
  and 0, not 3/4, 1/2, 1/4 and 0. The first write keeps the old content whole, and the
  last write, which completes the fade, is given the final position 0 in place of 1/4.
\<close>

theorem looper_fade_scenario_counterexample:
  "fade_positions small_looper 4 (Start WriteHead_ctor) = [1, 3 / 4, 1 / 2, 0]
   \<and> fade_positions small_looper 4 (Start WriteHead_ctor) \<noteq> [3 / 4, 1 / 2, 1 / 4, 0]"
  by (simp add: Start_def WriteHead_ctor_def numeral_eq_Suc
      fade_in_steps[of small_looper, OF small_looper_fields(3,4)])

section \<open>LooperBuffer: positions are normalised before every access\<close>

text \<open>
  Claim C4. With a positive channel length, a total length of twice that which fits an
  \<open>int32_t\<close>, and a buffer of the total length: for every integer position \<open>p\<close>, negative
  or large, the index \<open>ReadLeft\<close> reads is \<open>p mod\<close> the channel length (with \<open>p\<close> taken as
  an \<open>int32_t\<close>), in the left half; the index \<open>ReadRight\<close> reads is in the right half; the
  index \<open>WriteHead::Write\<close> reads and writes is \<open>p mod\<close> the total length (with \<open>p\<close> taken
  as a \<open>uint32_t\<close>). No access is out of range (none of the three calls faults, and all
  return), and \<open>Write\<close> changes no other cell.
\<close>

theorem index_normalisation:
  assumes H: "0 < kLooperChannelBufferLength c"
    and T: "kLooperTotalBufferLength c = 2 * kLooperChannelBufferLength c"
      "kLooperTotalBufferLength c < 2 ^ 31"
    and len: "int (length (lb_buffer lb)) = kLooperTotalBufferLength c"
  shows "(\<exists>i. ReadLeft_index c p = Some i \<and> 0 \<le> i \<and> i < kLooperChannelBufferLength c
            \<and> i = s32 p mod kLooperChannelBufferLength c
            \<and> ReadLeft c lb p = Some (Inr (lb_buffer lb ! nat i)))
    \<and> (\<exists>j. ReadRight_index c p = Some j \<and> kLooperChannelBufferLength c \<le> j
            \<and> j < kLooperTotalBufferLength c
            \<and> ReadRight c lb p = Some (Inr (lb_buffer lb ! nat j)))
    \<and> (\<exists>k. Write_index c p = Some k \<and> 0 \<le> k \<and> k < kLooperTotalBufferLength c
            \<and> k = u32 p mod kLooperTotalBufferLength c
            \<and> (\<exists>h' buf'. WriteHead_Write c xf h (lb_buffer lb) p v = Some (Inr (h', buf'))
                  \<and> length buf' = length (lb_buffer lb)
                  \<and> (\<forall>n. n \<noteq> nat k \<longrightarrow> buf' ! n = lb_buffer lb ! n)))"
proof -
  let ?H = "kLooperChannelBufferLength c"
  let ?T = "kLooperTotalBufferLength c"
  have T0: "0 < ?T" "?T < 2 ^ 32" "?H < 2 ^ 31"
    using H T by simp_all
  have li: "ReadLeft_index c p = Some (s32 p mod ?H)"
    using H T0(3) by (rule ReadLeft_index_mod)
  have lr: "0 \<le> s32 p mod ?H" "s32 p mod ?H < ?H"
    using H by simp_all
  have "s32 p mod ?H < int (length (lb_buffer lb))"
    using lr len T H by linarith
  then have left: "ReadLeft c lb p = Some (Inr (lb_buffer lb ! nat (s32 p mod ?H)))"
    using lr(1) by (simp add: ReadLeft_def li getElement_def)
  obtain j where j: "ReadRight_index c p = Some j" "?H \<le> j" "j < ?T"
    using ReadRight_index_range[OF H T] by blast
  then have right: "ReadRight c lb p = Some (Inr (lb_buffer lb ! nat j))"
    using H len by (simp add: ReadRight_def getElement_def)
  have wi: "Write_index c p = Some (u32 p mod ?T)"
    using T0 by (intro Write_index_mod)
  have wr: "0 \<le> u32 p mod ?T" "u32 p mod ?T < ?T"
    using T0 by simp_all
  have ww: "\<exists>h' buf'. WriteHead_Write c xf h (lb_buffer lb) p v = Some (Inr (h', buf'))
       \<and> length buf' = length (lb_buffer lb)
       \<and> (\<forall>n. n \<noteq> nat (u32 p mod ?T) \<longrightarrow> buf' ! n = lb_buffer lb ! n)"
    unfolding WriteHead_Write_eq[OF T0(1) T(2) len] by (simp add: Let_def)
  show ?thesis
    using li lr left j right wi wr ww by blast
qed

theorem index_normalisation_witness:
  "0 < kLooperChannelBufferLength small_looper
   \<and> kLooperTotalBufferLength small_looper = 2 * kLooperChannelBufferLength small_looper
   \<and> kLooperTotalBufferLength small_looper < 2 ^ 31
   \<and> int (length (lb_buffer (LooperBuffer_ctor small_looper (steady_noise 1))))
        = kLooperTotalBufferLength small_looper
   \<and> ReadLeft_index small_looper (- 3) = Some 1
   \<and> ReadLeft small_looper (LooperBuffer_ctor small_looper (steady_noise 1)) (- 3)
        = Some (Inr (1 / 2))
   \<and> ReadRight_index small_looper 9 = Some 5
   \<and> Write_index small_looper (- 3) = Some 5"
proof -
  have h: "0 < kLooperChannelBufferLength small_looper"
    "kLooperTotalBufferLength small_looper = 2 * kLooperChannelBufferLength small_looper"
    "kLooperTotalBufferLength small_looper < 2 ^ 31"
    "int (length (lb_buffer (LooperBuffer_ctor small_looper (steady_noise 1))))
        = kLooperTotalBufferLength small_looper"
    by (simp_all add: small_looper_fields small_looper_ctor)
  have e: "s32 (- 3) mod 4 = 1" "u32 (- 3) mod 8 = 5"
    by (simp_all add: s32_def u32_def)
  have r: "ReadRight_index small_looper 9 = Some 5"
    by code_simp
  show ?thesis
    using index_normalisation[OF h, of "- 3" LinearCrossFade WriteHead_ctor 0] h r
    by (auto simp: small_looper_fields small_looper_ctor e)
qed

section \<open>LooperBuffer: clearing\<close>

lemma Clear_step:
  assumes B: "0 < kLooperClearBlockSize c"
    and TS: "kLooperClearBlockTypeSize c = 4 * kLooperClearBlockSize c"
    and T: "kLooperTotalBufferLength c = int n * kLooperClearBlockSize c"
    and len: "int (length (lb_buffer lb)) = kLooperTotalBufferLength c"
    and cur: "lb_clearBlock lb = int k * kLooperClearBlockSize c" and k: "k \<le> n"
  shows "Clear c lb =
     (if k = n then Inr (True, lb\<lparr>lb_clearBlock := 0\<rparr>)
      else Inr (False, lb\<lparr>lb_buffer :=
                  take (k * nat (kLooperClearBlockSize c)) (lb_buffer lb)
                  @ replicate (nat (kLooperClearBlockSize c)) 0
                  @ drop (k * nat (kLooperClearBlockSize c) + nat (kLooperClearBlockSize c))
                      (lb_buffer lb),
                lb_clearBlock := int (Suc k) * kLooperClearBlockSize c\<rparr>))"
proof (cases "k = n")
  case True
  then show ?thesis by (simp add: Clear_def cur T)
next
  case False
  let ?B = "kLooperClearBlockSize c"
  have ne: "lb_clearBlock lb \<noteq> kLooperTotalBufferLength c"
    using False B by (simp add: cur T)
  have "int k + 1 \<le> int n" using False k by simp
  then have "(int k + 1) * ?B \<le> int n * ?B"
    using B by (intro mult_right_mono) auto
  then have fit: "int k * ?B + ?B \<le> int (length (lb_buffer lb))"
    by (simp add: len T algebra_simps)
  have off: "nat (int k * ?B) = k * nat ?B"
    using B by (simp add: nat_mult_distrib)
  have "memset_zero (lb_buffer lb) (int k * ?B) (4 * ?B)
      = Inr (take (k * nat ?B) (lb_buffer lb) @ replicate (nat ?B) 0
             @ drop (k * nat ?B + nat ?B) (lb_buffer lb))"
    using B fit by (simp add: memset_zero_def off)
  then show ?thesis
    using False ne by (simp add: Clear_def cur TS bindF_def algebra_simps)
qed

lemma Clear_length:
  assumes B: "0 < kLooperClearBlockSize c"
    and TS: "kLooperClearBlockTypeSize c = 4 * kLooperClearBlockSize c"
    and T: "kLooperTotalBufferLength c = int n * kLooperClearBlockSize c"
    and len: "int (length (lb_buffer lb)) = kLooperTotalBufferLength c"
    and cur: "lb_clearBlock lb = int k * kLooperClearBlockSize c" and k: "k \<le> n"
  shows "\<exists>lb'. Clear c lb = Inr (k = n, lb')
     \<and> int (length (lb_buffer lb')) = kLooperTotalBufferLength c
     \<and> lb_clearBlock lb' = int (Suc k mod Suc n) * kLooperClearBlockSize c"
proof (cases "k = n")
  case True
  then show ?thesis
    unfolding Clear_step[OF assms] using len by simp
next
  case False
  let ?B = "kLooperClearBlockSize c"
  have "int k + 1 \<le> int n" using False k by simp
  then have "(int k + 1) * ?B \<le> int n * ?B"
    using B by (intro mult_right_mono) auto
  then have "int k * ?B + ?B \<le> int (length (lb_buffer lb))"
    by (simp add: len T algebra_simps)
  moreover have "?B = int (nat ?B)"
    using B by simp
  ultimately have "int (k * nat ?B + nat ?B) \<le> int (length (lb_buffer lb))"
    by (metis of_nat_add of_nat_mult)
  then have fit: "k * nat ?B + nat ?B \<le> length (lb_buffer lb)"
    by (simp only: of_nat_le_iff)
  have l: "length (take (k * nat ?B) (lb_buffer lb) @ replicate (nat ?B) 0
                @ drop (k * nat ?B + nat ?B) (lb_buffer lb)) = length (lb_buffer lb)"
    using fit by simp
  have md: "Suc k mod Suc n = Suc k" using False k by simp
  show ?thesis
    unfolding Clear_step[OF assms] using False len l by (simp add: md del: length_append)
qed

lemma Clears_run:
  assumes B: "0 < kLooperClearBlockSize c"
    and TS: "kLooperClearBlockTypeSize c = 4 * kLooperClearBlockSize c"
    and T: "kLooperTotalBufferLength c = int n * kLooperClearBlockSize c"
  shows "int (length (lb_buffer lb)) = kLooperTotalBufferLength c \<Longrightarrow>
    lb_clearBlock lb = int k * kLooperClearBlockSize c \<Longrightarrow> k \<le> n \<Longrightarrow>
    \<exists>lb'. Clears c m lb = Inr (map (\<lambda>j. (k + j) mod Suc n = n) [0 ..< m], lb')
       \<and> int (length (lb_buffer lb')) = kLooperTotalBufferLength c
       \<and> lb_clearBlock lb' = int ((k + m) mod Suc n) * kLooperClearBlockSize c"
proof (induction m arbitrary: lb k)
  case 0
  then show ?case by simp
next
  case (Suc m)
  obtain lb1 where c1: "Clear c lb = Inr (k = n, lb1)"
    and l1: "int (length (lb_buffer lb1)) = kLooperTotalBufferLength c"
    and k1: "lb_clearBlock lb1 = int (Suc k mod Suc n) * kLooperClearBlockSize c"
    using Clear_length[OF B TS T Suc.prems] by blast
  have le: "Suc k mod Suc n \<le> n"
    using mod_less_divisor[of "Suc n" "Suc k"] by simp
  obtain lb' where r: "Clears c m lb1 = Inr (map (\<lambda>j. (Suc k mod Suc n + j) mod Suc n = n) [0 ..< m], lb')"
    and l': "int (length (lb_buffer lb')) = kLooperTotalBufferLength c"
    and k': "lb_clearBlock lb' = int ((Suc k mod Suc n + m) mod Suc n) * kLooperClearBlockSize c"
    using Suc.IH[OF l1 k1 le] by blast
  have e: "(Suc k mod Suc n + j) mod Suc n = (k + Suc j) mod Suc n" for j
    by (simp add: mod_add_left_eq)
  have hd: "(k mod Suc n = n) = (k = n)"
    using Suc.prems(3) by simp
  have "[0 ..< Suc m] = 0 # [Suc 0 ..< Suc m]"
    by (rule upt_conv_Cons) simp
  then have lst: "[0 ..< Suc m] = 0 # map Suc [0 ..< m]"
    by (simp only: map_Suc_upt)
  have rs: "map (\<lambda>j. (k + j) mod Suc n = n) [0 ..< Suc m]
      = (k = n) # map (\<lambda>j. (Suc k mod Suc n + j) mod Suc n = n) [0 ..< m]"
    unfolding lst by (simp add: e hd del: upt_Suc)
  show ?case
    unfolding rs using l' k' by (simp add: c1 r bindF_def e[of m, simplified] del: upt_Suc)
qed

lemma one_true_in_pass:
  assumes "k \<le> n"
  shows "filter (\<lambda>r. r) (map (\<lambda>j. (k + j) mod Suc n = n) [0 ..< Suc n]) = [True]"
proof -
  have eq: "((k + j) mod Suc n = n) = (j = n - k)" if "j < Suc n" for j
  proof (cases "k + j \<le> n")
    case True
    then show ?thesis using assms by auto
  next
    case False
    then have "(k + j) mod Suc n = k + j - Suc n"
      using that assms by (simp add: mod_if)
    then show ?thesis using False that assms by auto
  qed
  have "map (\<lambda>j. (k + j) mod Suc n = n) [0 ..< Suc n] = map (\<lambda>j. j = n - k) [0 ..< Suc n]"
    by (rule map_cong) (auto simp: eq simp del: upt_Suc)
  also have "filter (\<lambda>r. r) \<dots> = map (\<lambda>j. j = n - k) (filter (\<lambda>j. j = n - k) [0 ..< Suc n])"
    by (simp add: filter_map comp_def del: upt_Suc)
  also have "filter (\<lambda>j. j = n - k) [0 ..< Suc n] = [n - k]"
  proof -
    have "n - k < Suc n" by simp
    then have "[0 ..< Suc n] = [0 ..< n - k] @ (n - k) # [Suc (n - k) ..< Suc n]"
      by (metis upt_add_eq_append upt_conv_Cons le0 less_imp_le_nat le_add_diff_inverse)
    then show ?thesis by (simp del: upt_Suc add: filter_empty_conv)
  qed
  finally show ?thesis by simp
qed

lemma pass_results:
  assumes "k \<le> n"
  shows "map (\<lambda>j. (k + j) mod Suc n = n) [0 ..< Suc n] = map (\<lambda>j. j = n - k) [0 ..< Suc n]"
proof -
  have eq: "((k + j) mod Suc n = n) = (j = n - k)" if "j < Suc n" for j
  proof (cases "k + j \<le> n")
    case True
    then show ?thesis using assms by auto
  next
    case False
    then have "(k + j) mod Suc n = k + j - Suc n"
      using that assms by (simp add: mod_if)
    then show ?thesis using False that assms by auto
  qed
  show ?thesis
    by (rule map_cong) (auto simp: eq simp del: upt_Suc)
qed

text \<open>
  Claim C9, as amended. Let the clear block size be positive and divide the buffer length
  into \<open>n\<close> blocks, the size in bytes being four times the block size, and let the clear
  cursor stand at the start of block \<open>k \<le> n\<close> (as it does after the constructor and after
  every call). A call of \<open>Clear\<close> either, when the cursor is at the end of the buffer,
  resets the cursor to the start, leaves the buffer as it is and returns true; or fills
  exactly the block at the cursor with zeros, moves the cursor by one block and returns
  false. Of any \<open>n + 1\<close> successive calls exactly one returns true, the one made when the
  cursor has reached the end, and the cursor is then back where it was.
\<close>

theorem Clear_pass:
  assumes B: "0 < kLooperClearBlockSize c"
    and TS: "kLooperClearBlockTypeSize c = 4 * kLooperClearBlockSize c"
    and T: "kLooperTotalBufferLength c = int n * kLooperClearBlockSize c"
    and len: "int (length (lb_buffer lb)) = kLooperTotalBufferLength c"
    and cur: "lb_clearBlock lb = int k * kLooperClearBlockSize c" and k: "k \<le> n"
  shows "Clear c lb =
       (if lb_clearBlock lb = kLooperTotalBufferLength c
        then Inr (True, lb\<lparr>lb_clearBlock := 0\<rparr>)
        else Inr (False, lb\<lparr>lb_buffer :=
                  take (nat (lb_clearBlock lb)) (lb_buffer lb)
                  @ replicate (nat (kLooperClearBlockSize c)) 0
                  @ drop (nat (lb_clearBlock lb) + nat (kLooperClearBlockSize c)) (lb_buffer lb),
                lb_clearBlock := lb_clearBlock lb + kLooperClearBlockSize c\<rparr>))
    \<and> (\<exists>lb'. Clears c (Suc n) lb = Inr (map (\<lambda>j. j = n - k) [0 ..< Suc n], lb')
           \<and> lb_clearBlock lb' = lb_clearBlock lb
           \<and> length (lb_buffer lb') = length (lb_buffer lb))"
proof -
  let ?B = "kLooperClearBlockSize c"
  have kn: "(lb_clearBlock lb = kLooperTotalBufferLength c) = (k = n)"
    using B by (simp add: cur T)
  have off: "nat (lb_clearBlock lb) = k * nat ?B"
    using B by (simp add: cur nat_mult_distrib)
  have one: "Clear c lb =
       (if lb_clearBlock lb = kLooperTotalBufferLength c
        then Inr (True, lb\<lparr>lb_clearBlock := 0\<rparr>)
        else Inr (False, lb\<lparr>lb_buffer :=
                  take (nat (lb_clearBlock lb)) (lb_buffer lb)
                  @ replicate (nat ?B) 0
                  @ drop (nat (lb_clearBlock lb) + nat ?B) (lb_buffer lb),
                lb_clearBlock := lb_clearBlock lb + ?B\<rparr>))"
    unfolding Clear_step[OF assms] kn off by (simp add: cur algebra_simps)
  obtain lb' where r: "Clears c (Suc n) lb = Inr (map (\<lambda>j. (k + j) mod Suc n = n) [0 ..< Suc n], lb')"
    and l': "int (length (lb_buffer lb')) = kLooperTotalBufferLength c"
    and k': "lb_clearBlock lb' = int ((k + Suc n) mod Suc n) * ?B"
    using Clears_run[OF B TS T len cur k, of "Suc n"] by blast
  have "(k + Suc n) mod Suc n = k mod Suc n"
    by (rule mod_add_self2)
  also have "\<dots> = k"
    using k by simp
  finally have c': "lb_clearBlock lb' = lb_clearBlock lb"
    using k' cur by simp
  have "int (length (lb_buffer lb')) = int (length (lb_buffer lb))"
    using l' len by simp
  then have ll: "length (lb_buffer lb') = length (lb_buffer lb)"
    by simp
  show ?thesis
    using one r[unfolded pass_results[OF k]] c' ll by blast
qed

text \<open>A buffer of 8 floats cleared in blocks of 2: four calls return false, the fifth
  true.\<close>

theorem Clear_pass_witness:
  "0 < kLooperClearBlockSize small_looper
   \<and> kLooperClearBlockTypeSize small_looper = 4 * kLooperClearBlockSize small_looper
   \<and> kLooperTotalBufferLength small_looper = int 4 * kLooperClearBlockSize small_looper
   \<and> int (length (lb_buffer (LooperBuffer_ctor small_looper (steady_noise 1))))
        = kLooperTotalBufferLength small_looper
   \<and> lb_clearBlock (LooperBuffer_ctor small_looper (steady_noise 1))
        = int 0 * kLooperClearBlockSize small_looper
   \<and> (0::nat) \<le> 4
   \<and> (\<exists>lb'. Clears small_looper 5 (LooperBuffer_ctor small_looper (steady_noise 1))
              = Inr ([False, False, False, False, True], lb')
            \<and> lb_clearBlock lb' = 0)"
proof -
  have h: "0 < kLooperClearBlockSize small_looper"
    "kLooperClearBlockTypeSize small_looper = 4 * kLooperClearBlockSize small_looper"
    "kLooperTotalBufferLength small_looper = int 4 * kLooperClearBlockSize small_looper"
    "int (length (lb_buffer (LooperBuffer_ctor small_looper (steady_noise 1))))
        = kLooperTotalBufferLength small_looper"
    "lb_clearBlock (LooperBuffer_ctor small_looper (steady_noise 1))
        = int 0 * kLooperClearBlockSize small_looper"
    "(0::nat) \<le> 4"
    by (simp_all add: small_looper_fields small_looper_ctor)
  have m: "map (\<lambda>j. j = (4::nat)) [0 ..< 5] = [False, False, False, False, True]"
    by code_simp
  show ?thesis
    using Clear_pass[OF h] h by (simp add: m small_looper_ctor) blast
qed

text \<open>
  Claim C9 as stated fails in one respect: \<open>Clear\<close> does not fill the block with noise.
  The constructor fills the buffer with noise samples scaled by the noise level (here
  every cell is 1/2); \<open>Clear\<close> then sets the first block to zero, which is no scaled
  sample of that noise source.
\<close>

theorem Clear_pass_counterexample:
  "lb_buffer (LooperBuffer_ctor small_looper (steady_noise 1)) = replicate 8 (1 / 2)
   \<and> Clear small_looper (LooperBuffer_ctor small_looper (steady_noise 1))
      = Inr (False, \<lparr>lb_buffer = [0, 0, 1 / 2, 1 / 2, 1 / 2, 1 / 2, 1 / 2, 1 / 2],
                     lb_clearBlock = 2, lb_left = WriteHead_ctor, lb_right = WriteHead_ctor\<rparr>)
   \<and> fmul (steady_noise 1 0) (kLooperNoiseLevel small_looper) \<noteq> 0"
  by code_simp

section \<open>Damp: the returned value is the lowpass alone\<close>

lemma damp_range: "fsub (- (1 / 2)) (- 40) = 79 / 2"
  by code_simp

lemma Map_f_total: "fsub aMax aMin \<noteq> 0 \<Longrightarrow> \<exists>q. Map_f v aMin aMax bMin bMax = Inr q"
  by (simp add: Map_f_def bindF_def fdiv_def)

lemma damp_Map_total: "\<exists>q. Map_f v (- 40) (- (1 / 2)) bMin bMax = Inr q"
  by (rule Map_f_total) (simp add: damp_range)

lemma hi_coeff_total: "\<exists>k. hi_coeff v = Inr k"
  using damp_Map_total[of v "round32 (5 / 100)" "round32 (9 / 10)"]
  by (auto simp: hi_coeff_def bindF_def)

lemma SetHi_hi_coeff: "SetHi d v = bindF (hi_coeff v) (\<lambda>k. Inr (d\<lparr>lpCoeff := k\<rparr>))"
  by (simp add: SetHi_def hi_coeff_def bindF_def split: sum.splits)

lemma SetLo_total: "\<exists>k. SetLo d v = Inr (d\<lparr>hpCoeff := k\<rparr>)"
  using damp_Map_total[of v "round32 (9 / 10)" "round32 (5 / 100)"]
  by (auto simp: SetLo_def bindF_def)

lemma damp_run_lowpass:
  "\<exists>ys d'. damp_run d cs = Inr (ys, d')
      \<and> one_pole_lowpass (lpCoeff d) (lpState d) cs = Inr ys"
proof (induction cs arbitrary: d)
  case Nil
  show ?case by simp
next
  case (Cons a cs)
  show ?case
  proof (cases a)
    case (CallSetHi v)
    obtain k where k: "hi_coeff v = Inr k"
      using hi_coeff_total by blast
    show ?thesis
      using Cons.IH[of "d\<lparr>lpCoeff := k\<rparr>"] CallSetHi
      by (auto simp: SetHi_hi_coeff k bindF_def)
  next
    case (CallSetLo v)
    obtain k where k: "SetLo d v = Inr (d\<lparr>hpCoeff := k\<rparr>)"
      using SetLo_total by blast
    show ?thesis
      using Cons.IH[of "d\<lparr>hpCoeff := k\<rparr>"] CallSetLo
      by (auto simp: k bindF_def)
  next
    case (CallSetHp v)
    show ?thesis
      using Cons.IH[of d] CallSetHp by (auto simp: SetHp_def bindF_def)
  next
    case (CallSetLp v)
    show ?thesis
      using Cons.IH[of d] CallSetLp by (auto simp: SetLp_def bindF_def)
  next
    case (CallProcess x)
    let ?d1 = "snd (Damp_Process d x)"
    have p: "fst (Damp_Process d x) = fadd (lpState d) (fmul (lpCoeff d) (fsub x (lpState d)))"
      "lpState ?d1 = fadd (lpState d) (fmul (lpCoeff d) (fsub x (lpState d)))"
      "lpCoeff ?d1 = lpCoeff d"
      by (simp_all add: Damp_Process_def Let_def)
    show ?thesis
      using Cons.IH[of ?d1] CallProcess
      by (auto simp: p bindF_def split_def Let_def)
  qed
qed

lemma lowpass_ignores_SetLo:
  "list_all2 same_but_SetLo cs1 cs2 \<Longrightarrow> one_pole_lowpass k y cs1 = one_pole_lowpass k y cs2"
proof (induction cs1 cs2 arbitrary: k y rule: list_all2_induct)
  case Nil
  show ?case by simp
next
  case (Cons a cs1 b cs2)
  show ?case
  proof (cases a)
    case (CallSetLo u)
    then obtain v where "b = CallSetLo v"
      using Cons.hyps(1) by (cases b) auto
    then show ?thesis
      using CallSetLo Cons.IH by simp
  next
    case (CallSetHi v)
    then have "b = a" using Cons.hyps(1) by simp
    then show ?thesis using CallSetHi Cons.IH by simp
  next
    case (CallSetHp v)
    then have "b = a" using Cons.hyps(1) by simp
    then show ?thesis using CallSetHp Cons.IH by simp
  next
    case (CallSetLp v)
    then have "b = a" using Cons.hyps(1) by simp
    then show ?thesis using CallSetLp Cons.IH by simp
  next
    case (CallProcess v)
    then have "b = a" using Cons.hyps(1) by simp
    then show ?thesis using CallProcess Cons.IH by simp
  qed
qed

text \<open>
  Claim C7. Take two runs of a damping filter, that is two lists of calls, that differ
  only in the arguments passed to \<open>SetLo\<close>, from states that agree in the lowpass
  coefficient and the lowpass state (the highpass coefficient and state may differ).
  Neither run faults, the two return the same values from their \<open>Process\<close> calls, and
  these are the values of the one-pole lowpass \<open>y[n] = y[n-1] + c * (x[n] - y[n-1])\<close> whose
  coefficient \<open>c\<close> is the one the last \<open>SetHi\<close> stored. Every \<open>Process\<close> call returns the
  new lowpass state, and it does update the highpass state, from the highpass coefficient.
\<close>

theorem Damp_output_is_lowpass:
  assumes "list_all2 same_but_SetLo cs1 cs2"
    and "lpCoeff d1 = lpCoeff d2" and "lpState d1 = lpState d2"
  shows "(\<exists>ys e1 e2. damp_run d1 cs1 = Inr (ys, e1) \<and> damp_run d2 cs2 = Inr (ys, e2)
            \<and> one_pole_lowpass (lpCoeff d1) (lpState d1) cs1 = Inr ys)
    \<and> fst (Damp_Process d1 x) = fadd (lpState d1) (fmul (lpCoeff d1) (fsub x (lpState d1)))
    \<and> fst (Damp_Process d1 x) = fst (Damp_Process d2 x)
    \<and> hpState (snd (Damp_Process d1 x))
        = fadd (hpState d1) (fmul (hpCoeff d1) (fsub (fst (Damp_Process d1 x)) (hpState d1)))"
proof -
  obtain ys e1 where r1: "damp_run d1 cs1 = Inr (ys, e1)"
    "one_pole_lowpass (lpCoeff d1) (lpState d1) cs1 = Inr ys"
    using damp_run_lowpass by blast
  obtain zs e2 where r2: "damp_run d2 cs2 = Inr (zs, e2)"
    "one_pole_lowpass (lpCoeff d2) (lpState d2) cs2 = Inr zs"
    using damp_run_lowpass by blast
  have "zs = ys"
    using r1(2) r2(2) lowpass_ignores_SetLo[OF assms(1), of "lpCoeff d1" "lpState d1"] assms(2,3)
    by simp
  then have runs: "\<exists>ys e1 e2. damp_run d1 cs1 = Inr (ys, e1) \<and> damp_run d2 cs2 = Inr (ys, e2)
            \<and> one_pole_lowpass (lpCoeff d1) (lpState d1) cs1 = Inr ys"
    using r1 r2 by blast
  show ?thesis
    using runs assms(2,3) by (simp add: Damp_Process_def Let_def)
qed

lemma half_products:
  "fsub 1 0 = 1" "fmul (1 / 2) 1 = 1 / 2" "fadd 0 (1 / 2) = 1 / 2" "fsub (1 / 2) 0 = 1 / 2"
  "fmul (1 / 2) (1 / 2) = 1 / 4" "fadd 0 (1 / 4) = 1 / 4"
  "fmul (1 / 4) (1 / 2) = 1 / 8" "fadd 0 (1 / 8) = 1 / 8"
  by code_simp+

text \<open>Two filters that differ in the highpass coefficient only return the same value
  and end in different highpass states.\<close>

lemma Damp_Process_example:
  "Damp_Process \<lparr>lpCoeff = 1 / 2, hpCoeff = 1 / 2, lpState = 0, hpState = 0\<rparr> 1
     = (1 / 2, \<lparr>lpCoeff = 1 / 2, hpCoeff = 1 / 2, lpState = 1 / 2, hpState = 1 / 4\<rparr>)"
  "Damp_Process \<lparr>lpCoeff = 1 / 2, hpCoeff = 1 / 4, lpState = 0, hpState = 0\<rparr> 1
     = (1 / 2, \<lparr>lpCoeff = 1 / 2, hpCoeff = 1 / 4, lpState = 1 / 2, hpState = 1 / 8\<rparr>)"
  by (simp_all add: Damp_Process_def Let_def half_products)

text \<open>Two runs from the constructor, with \<open>SetLo(-40)\<close> in one and \<open>SetLo(-0.5)\<close> in the
  other.\<close>

theorem Damp_output_is_lowpass_witness:
  "list_all2 same_but_SetLo [CallSetHi (- (1 / 2)), CallSetLo (- 40), CallProcess 1]
      [CallSetHi (- (1 / 2)), CallSetLo (- (1 / 2)), CallProcess 1]
   \<and> lpCoeff (Damp_ctor 48000) = lpCoeff (Damp_ctor 44100)
   \<and> lpState (Damp_ctor 48000) = lpState (Damp_ctor 44100)
   \<and> (\<exists>ys e1 e2.
         damp_run (Damp_ctor 48000) [CallSetHi (- (1 / 2)), CallSetLo (- 40), CallProcess 1]
           = Inr (ys, e1)
       \<and> damp_run (Damp_ctor 44100) [CallSetHi (- (1 / 2)), CallSetLo (- (1 / 2)), CallProcess 1]
           = Inr (ys, e2))"
proof -
  have h: "list_all2 same_but_SetLo [CallSetHi (- (1 / 2)), CallSetLo (- 40), CallProcess 1]
      [CallSetHi (- (1 / 2)), CallSetLo (- (1 / 2)), CallProcess 1]"
    "lpCoeff (Damp_ctor 48000) = lpCoeff (Damp_ctor 44100)"
    "lpState (Damp_ctor 48000) = lpState (Damp_ctor 44100)"
    by (simp_all add: Damp_ctor_def)
  show ?thesis
    using Damp_output_is_lowpass[OF h] h by blast
qed

section \<open>Diffuse: staged and current delay times\<close>

lemma fold_update_prefix:
  "n \<le> length xs \<Longrightarrow> fold (\<lambda>i ys. ys[i := f i]) [0 ..< n] xs = map f [0 ..< n] @ drop n xs"
proof (induction n)
  case 0
  show ?case by simp
next
  case (Suc n)
  then have n: "n < length xs" by simp
  have "fold (\<lambda>i ys. ys[i := f i]) [0 ..< Suc n] xs = (map f [0 ..< n] @ drop n xs)[n := f n]"
    using Suc by simp
  also have "\<dots> = map f [0 ..< n] @ (drop n xs)[0 := f n]"
    by (simp add: list_update_append)
  also have "(drop n xs)[0 := f n] = f n # drop (Suc n) xs"
    using n by (simp add: Cons_nth_drop_Suc[symmetric])
  finally show ?case by simp
qed

lemma stage_fold_fields:
  "df_delayTimes (fold (\<lambda>i d. d\<lparr>df_newDelayTimes := (df_newDelayTimes d)[i := f i]\<rparr>) is d)
     = df_delayTimes d
   \<and> df_time (fold (\<lambda>i d. d\<lparr>df_newDelayTimes := (df_newDelayTimes d)[i := f i]\<rparr>) is d)
     = df_time d
   \<and> df_newDelayTimes (fold (\<lambda>i d. d\<lparr>df_newDelayTimes := (df_newDelayTimes d)[i := f i]\<rparr>) is d)
     = fold (\<lambda>i ys. ys[i := f i]) is (df_newDelayTimes d)"
  by (induction "is" arbitrary: d) simp_all

text \<open>The gain that \<open>SetRT\<close> stores for the value \<open>g\<close> that \<open>Db2A\<close> gives.\<close>

lemma decay_level_cong:
  "df_delayTimes d' = df_delayTimes d \<Longrightarrow> decay_level env d' t = decay_level env d t"
  by (simp add: decay_level_def)

lemma SetRT_eq:
  "df_delayTimes (SetRT env d t) = df_delayTimes d
   \<and> df_newDelayTimes (SetRT env d t) = df_newDelayTimes d
   \<and> df_needsUpdate (SetRT env d t) = df_needsUpdate d \<and> df_time (SetRT env d t) = t
   \<and> df_rt (SetRT env d t)
       = (if ieee_ge (Db2A env (decay_level env d t)) (kOne env) then Fin 1
          else Db2A env (decay_level env d t))"
  by (simp add: SetRT_def Let_def decay_level_def)

lemma SetSZ_eq:
  "df_delayTimes (SetSZ env d sz) = df_delayTimes d \<and> df_needsUpdate (SetSZ env d sz)
    \<and> df_rt (SetSZ env d sz)
       = (if ieee_ge (Db2A env (decay_level env d (df_time d))) (kOne env) then Fin 1
          else Db2A env (decay_level env d (df_time d)))
    \<and> df_newDelayTimes (SetSZ env d sz) =
        (fold (\<lambda>i ys. ys[i := M2D env (fadd sz (fmul 2 (float_of_int (int i + 1))))])
           [0 ..< kAmbienceNofDiffusers env - 1] (df_newDelayTimes d))
        [kAmbienceNofDiffusers env - 1 := M2D env (fsub sz 7)]"
proof -
  let ?f = "\<lambda>i. M2D env (fadd sz (fmul 2 (float_of_int (int i + 1))))"
  let ?d2 = "fold (\<lambda>i d. d\<lparr>df_newDelayTimes := (df_newDelayTimes d)[i := ?f i]\<rparr>)
                 [0 ..< kAmbienceNofDiffusers env - 1] (d\<lparr>df_size := sz\<rparr>)"
  let ?d3 = "?d2\<lparr>df_newDelayTimes := (df_newDelayTimes ?d2)
                       [kAmbienceNofDiffusers env - 1 := M2D env (fsub sz 7)]\<rparr>"
  have d': "SetSZ env d sz = (SetRT env ?d3 (df_time ?d3))\<lparr>df_needsUpdate := True\<rparr>"
    by (simp add: SetSZ_def Let_def)
  have f: "df_delayTimes ?d2 = df_delayTimes d" "df_time ?d2 = df_time d"
    "df_newDelayTimes ?d2 = fold (\<lambda>i ys. ys[i := ?f i]) [0 ..< kAmbienceNofDiffusers env - 1] (df_newDelayTimes d)"
    using stage_fold_fields[of ?f "[0 ..< kAmbienceNofDiffusers env - 1]" "d\<lparr>df_size := sz\<rparr>"]
    by simp_all
  have l: "decay_level env ?d3 (df_time d) = decay_level env d (df_time d)"
    using f(1) by (intro decay_level_cong) simp
  show ?thesis
    unfolding d' using SetRT_eq[of env ?d3 "df_time ?d3"] f l by simp
qed

lemma SetSZ_staged:
  assumes "length (df_newDelayTimes d) = kAmbienceNofDiffusers env"
    and "0 < kAmbienceNofDiffusers env"
  shows "df_newDelayTimes (SetSZ env d sz) =
     map (\<lambda>i. M2D env (fadd sz (fmul 2 (float_of_int (int i + 1)))))
       [0 ..< kAmbienceNofDiffusers env - 1] @ [M2D env (fsub sz 7)]"
proof -
  let ?n = "kAmbienceNofDiffusers env - 1"
  let ?f = "\<lambda>i. M2D env (fadd sz (fmul 2 (float_of_int (int i + 1))))"
  have le: "?n \<le> length (df_newDelayTimes d)" using assms(1) by simp
  have dr: "drop ?n (df_newDelayTimes d) = [df_newDelayTimes d ! ?n]"
    using assms by (metis Cons_nth_drop_Suc Suc_diff_1 diff_less drop_all le_refl zero_less_one)
  have "df_newDelayTimes (SetSZ env d sz)
      = (map ?f [0 ..< ?n] @ drop ?n (df_newDelayTimes d))[?n := M2D env (fsub sz 7)]"
    using SetSZ_eq[of env d sz] fold_update_prefix[OF le, of ?f] by simp
  also have "\<dots> = map ?f [0 ..< ?n] @ [M2D env (fsub sz 7)]"
    unfolding dr by (simp add: list_update_append)
  finally show ?thesis .
qed

lemma update_fold_fields:
  "df_newDelayTimes (fold (\<lambda>i d. d\<lparr>df_delayTimes := (df_delayTimes d)[i := df_newDelayTimes d ! i]\<rparr>) is d)
     = df_newDelayTimes d
   \<and> df_rt (fold (\<lambda>i d. d\<lparr>df_delayTimes := (df_delayTimes d)[i := df_newDelayTimes d ! i]\<rparr>) is d)
     = df_rt d
   \<and> df_delayTimes (fold (\<lambda>i d. d\<lparr>df_delayTimes := (df_delayTimes d)[i := df_newDelayTimes d ! i]\<rparr>) is d)
     = fold (\<lambda>i ys. ys[i := df_newDelayTimes d ! i]) is (df_delayTimes d)"
  by (induction "is" arbitrary: d) simp_all

lemma UpdateDelayTimes_eq:
  assumes "length (df_delayTimes d) = kAmbienceNofDiffusers env"
    and "length (df_newDelayTimes d) = kAmbienceNofDiffusers env"
  shows "df_delayTimes (UpdateDelayTimes env d)
       = (if df_needsUpdate d then df_newDelayTimes d else df_delayTimes d)
    \<and> \<not> df_needsUpdate (UpdateDelayTimes env d)
    \<and> df_newDelayTimes (UpdateDelayTimes env d) = df_newDelayTimes d
    \<and> df_rt (UpdateDelayTimes env d) = df_rt d"
proof (cases "df_needsUpdate d")
  case False
  then show ?thesis by (simp add: UpdateDelayTimes_def)
next
  case True
  let ?N = "kAmbienceNofDiffusers env"
  have "fold (\<lambda>i ys. ys[i := df_newDelayTimes d ! i]) [0 ..< ?N] (df_delayTimes d)
      = map (\<lambda>i. df_newDelayTimes d ! i) [0 ..< ?N] @ drop ?N (df_delayTimes d)"
    using assms(1) by (intro fold_update_prefix) simp
  also have "\<dots> = df_newDelayTimes d"
    using assms by (simp add: map_nth[of "df_newDelayTimes d", unfolded assms(2)])
  finally show ?thesis
    using True update_fold_fields[of "[0 ..< ?N]" d] by (simp add: UpdateDelayTimes_def)
qed

lemma stages_fields:
  "df_delayTimes (snd (fold (Diffuse_stage env x) is od)) = df_delayTimes (snd od)
   \<and> df_newDelayTimes (snd (fold (Diffuse_stage env x) is od)) = df_newDelayTimes (snd od)
   \<and> df_rt (snd (fold (Diffuse_stage env x) is od)) = df_rt (snd od)
   \<and> df_needsUpdate (snd (fold (Diffuse_stage env x) is od)) = df_needsUpdate (snd od)"
  by (induction "is" arbitrary: od) (simp_all add: Diffuse_stage_def Let_def split_def)

lemma Diffuse_Process_fields:
  "df_delayTimes (snd (Diffuse_Process env d v x)) = df_delayTimes d
   \<and> df_newDelayTimes (snd (Diffuse_Process env d v x)) = df_newDelayTimes d
   \<and> df_rt (snd (Diffuse_Process env d v x)) = df_rt d
   \<and> df_needsUpdate (snd (Diffuse_Process env d v x)) = df_needsUpdate d
   \<and> GetFbOut (snd (Diffuse_Process env d v x))
       = ieee_mul
           (Fin (df_outs (snd (fold (Diffuse_stage env x) [0 ..< kAmbienceNofDiffusers env - 1] (v, d)))
                   ! (kAmbienceNofDiffusers env - 1)))
           (df_rt d)"
  using stages_fields[of env x "[0 ..< kAmbienceNofDiffusers env - 1]" "(v, d)"]
  by (simp add: Diffuse_Process_def Let_def split_def GetFbOut_def)

lemma fold_update_length: "length (fold (\<lambda>i ys. ys[i := f i]) is xs) = length xs"
  by (induction "is" arbitrary: xs) simp_all

lemma diffuse_step_frame:
  assumes "c \<noteq> CallUpdateDelayTimes"
  shows "df_delayTimes (diffuse_step env d c) = df_delayTimes d
    \<and> length (df_newDelayTimes (diffuse_step env d c)) = length (df_newDelayTimes d)
    \<and> (df_needsUpdate d \<longrightarrow> df_needsUpdate (diffuse_step env d c))"
proof (cases c)
  case (CallSetSZ v)
  then show ?thesis
    using SetSZ_eq[of env d v] by (simp add: fold_update_length)
next
  case (CallSetRT v)
  then show ?thesis
    using SetRT_eq[of env d v] by simp
next
  case (CallSetDf v)
  then show ?thesis
    by (simp add: SetDf_def)
next
  case CallUpdateDelayTimes
  then show ?thesis using assms by simp
next
  case (CallDiffuseProcess v x)
  then show ?thesis
    using Diffuse_Process_fields[of env d v x] by simp
qed

lemma diffuse_run_frame:
  "CallUpdateDelayTimes \<notin> set cs \<Longrightarrow>
   df_delayTimes (diffuse_run env d cs) = df_delayTimes d
    \<and> length (df_newDelayTimes (diffuse_run env d cs)) = length (df_newDelayTimes d)
    \<and> (df_needsUpdate d \<longrightarrow> df_needsUpdate (diffuse_run env d cs))"
proof (induction cs arbitrary: d)
  case Nil
  then show ?case by simp
next
  case (Cons c cs)
  have "c \<noteq> CallUpdateDelayTimes" "CallUpdateDelayTimes \<notin> set cs"
    using Cons.prems by auto
  then show ?case
    using diffuse_step_frame[of c env d] Cons.IH[of "diffuse_step env d c"] by simp
qed

text \<open>
  Claim C6. \<open>SetSZ\<close> leaves the current delay times as they are: it stores the new delay
  time of every stage in the staged array and sets the update flag. A following
  \<open>UpdateDelayTimes\<close> makes the current array equal to the staged one, every stage in that
  one call. No other call changes the current delay times: after any calls of \<open>SetSZ\<close>,
  \<open>SetRT\<close>, \<open>SetDf\<close> and \<open>Process\<close> they are still what they were before the first
  \<open>SetSZ\<close>, and the next \<open>UpdateDelayTimes\<close> copies all the times staged by then.
\<close>

theorem SetSZ_stages_delay_times:
  assumes N: "0 < kAmbienceNofDiffusers env"
    and lens: "length (df_delayTimes d) = kAmbienceNofDiffusers env"
      "length (df_newDelayTimes d) = kAmbienceNofDiffusers env"
    and d': "d' = SetSZ env d sz"
    and e: "e = diffuse_run env d' cs"
  shows "df_delayTimes d' = df_delayTimes d
    \<and> df_newDelayTimes d' =
        map (\<lambda>i. M2D env (fadd sz (fmul 2 (float_of_int (int i + 1)))))
          [0 ..< kAmbienceNofDiffusers env - 1] @ [M2D env (fsub sz 7)]
    \<and> df_needsUpdate d'
    \<and> df_delayTimes (UpdateDelayTimes env d') = df_newDelayTimes d'
    \<and> (CallUpdateDelayTimes \<notin> set cs \<longrightarrow>
          df_delayTimes e = df_delayTimes d
          \<and> df_delayTimes (UpdateDelayTimes env e) = df_newDelayTimes e)"
proof -
  note a = SetSZ_eq[of env d sz, folded d']
  note b = SetSZ_staged[OF lens(2) N, of sz, folded d']
  have "length (df_newDelayTimes d') = (kAmbienceNofDiffusers env - 1) + 1"
    unfolding b by simp
  then have l': "length (df_delayTimes d') = kAmbienceNofDiffusers env"
    "length (df_newDelayTimes d') = kAmbienceNofDiffusers env"
    using a lens N by simp_all
  have u: "df_delayTimes (UpdateDelayTimes env d') = df_newDelayTimes d'"
    using UpdateDelayTimes_eq[OF l'] a by simp
  have f: "df_delayTimes e = df_delayTimes d
          \<and> df_delayTimes (UpdateDelayTimes env e) = df_newDelayTimes e"
    if "CallUpdateDelayTimes \<notin> set cs"
  proof -
    note g = diffuse_run_frame[OF that, of env d', folded e]
    have le: "length (df_delayTimes e) = kAmbienceNofDiffusers env"
      "length (df_newDelayTimes e) = kAmbienceNofDiffusers env"
      using g l' by simp_all
    show ?thesis
      using UpdateDelayTimes_eq[OF le] g a by simp
  qed
  show ?thesis
    using a b u f by blast
qed

lemma small_SetSZ:
  "SetSZ small_ambience small_diffuse 9
     = small_diffuse\<lparr>df_newDelayTimes := [1, 1], df_size := 9, df_rt := Fin 1,
         df_needsUpdate := True\<rparr>"
  by (simp add: SetSZ_def SetRT_def decay_level_def small_ambience_def small_diffuse_def
      Let_def)

text \<open>Two stages with current delay times 3 and 5: \<open>SetSZ\<close> stages 1 and 1 and leaves 3
  and 5 current until \<open>UpdateDelayTimes\<close>.\<close>

theorem SetSZ_stages_delay_times_witness:
  "0 < kAmbienceNofDiffusers small_ambience
   \<and> length (df_delayTimes small_diffuse) = kAmbienceNofDiffusers small_ambience
   \<and> length (df_newDelayTimes small_diffuse) = kAmbienceNofDiffusers small_ambience
   \<and> SetSZ small_ambience small_diffuse 9
       = small_diffuse\<lparr>df_newDelayTimes := [1, 1], df_size := 9, df_rt := Fin 1,
           df_needsUpdate := True\<rparr>
   \<and> df_delayTimes (SetSZ small_ambience small_diffuse 9) = [3, 5]
   \<and> df_delayTimes (UpdateDelayTimes small_ambience (SetSZ small_ambience small_diffuse 9))
       = [1, 1]
   \<and> df_delayTimes (diffuse_run small_ambience (SetSZ small_ambience small_diffuse 9)
        [CallSetRT 7, CallDiffuseProcess 1 0]) = [3, 5]"
proof -
  have h: "0 < kAmbienceNofDiffusers small_ambience"
    "length (df_delayTimes small_diffuse) = kAmbienceNofDiffusers small_ambience"
    "length (df_newDelayTimes small_diffuse) = kAmbienceNofDiffusers small_ambience"
    by (simp_all add: small_ambience_def small_diffuse_def)
  have c: "CallUpdateDelayTimes \<notin> set [CallSetRT 7, CallDiffuseProcess 1 0]"
    by simp
  note t = SetSZ_stages_delay_times[OF h refl refl, of 9 "[CallSetRT 7, CallDiffuseProcess 1 0]"]
  have d: "df_delayTimes small_diffuse = [3, 5]"
    by (simp add: small_diffuse_def)
  have n: "df_newDelayTimes (SetSZ small_ambience small_diffuse 9) = [1, 1]"
    unfolding small_SetSZ by simp
  have a: "df_delayTimes (SetSZ small_ambience small_diffuse 9) = [3, 5]"
    using t d by simp
  have b: "df_delayTimes (UpdateDelayTimes small_ambience (SetSZ small_ambience small_diffuse 9))
       = [1, 1]"
    using t n by simp
  have r: "df_delayTimes (diffuse_run small_ambience (SetSZ small_ambience small_diffuse 9)
        [CallSetRT 7, CallDiffuseProcess 1 0]) = [3, 5]"
    using t c d by simp
  show ?thesis
    by (intro conjI h small_SetSZ a b r)
qed

section \<open>Diffuse: the feedback gain\<close>

lemma clamp_not_above:
  "k \<le> 1 \<Longrightarrow> \<not> ieee_gt (if ieee_ge g k then Fin 1 else g) 1"
  by (cases g) auto

lemma clamp_le_or_NaN:
  "k \<le> 1 \<Longrightarrow> g \<noteq> NaN \<Longrightarrow> ieee_le (if ieee_ge g k then Fin 1 else g) 1"
  by (cases g) auto

lemma clamp_NaN: "((if ieee_ge g k then Fin 1 else g) = NaN) = (g = NaN)"
  by (cases g) auto

text \<open>The largest float stays, and what rounds above it is an infinity.\<close>

lemma ieee_round_examples:
  "ieee_round max_float = Fin max_float \<and> ieee_round (2 ^ 128 - 2 ^ 103 - 1) = Fin max_float
   \<and> ieee_round (2 ^ 128 - 2 ^ 103) = PlusInf \<and> ieee_round (- (2 ^ 128)) = MinusInf"
  by code_simp

lemma ieee_div_examples:
  "ieee_div 1 (1 / 2 ^ 149) False = PlusInf \<and> ieee_div (- 1) 0 False = MinusInf
   \<and> ieee_div (- 1) 0 True = PlusInf \<and> ieee_div 0 0 False = NaN"
  by code_simp

lemma ieee_div_NaN: "(ieee_div x y n = NaN) = (y = 0 \<and> x = 0)"
  by (simp add: ieee_div_def ieee_round_def)

lemma ieee_mul_float_NaN: "k \<noteq> 0 \<Longrightarrow> (ieee_mul q (Fin k) = NaN) = (q = NaN)"
  by (cases q) (simp_all add: ieee_round_def)

text \<open>The level is NaN exactly when the division is zero by zero.\<close>

lemma decay_level_NaN:
  "(decay_level env d t = NaN)
     = (M2D env t = 0 \<and> df_delayTimes d ! (kAmbienceNofDiffusers env - 1) = 0)"
  by (simp add: decay_level_def ieee_mul_float_NaN ieee_div_NaN)

lemma UpdateDelayTimes_rt: "df_rt (UpdateDelayTimes env d) = df_rt d"
  using update_fold_fields[of "[0 ..< kAmbienceNofDiffusers env]" d]
  by (simp add: UpdateDelayTimes_def)

lemma SetRT_not_above: "kOne env \<le> 1 \<Longrightarrow> \<not> ieee_gt (df_rt (SetRT env d t)) 1"
  using SetRT_eq[of env d t] clamp_not_above[of "kOne env"] by simp

lemma SetSZ_not_above: "kOne env \<le> 1 \<Longrightarrow> \<not> ieee_gt (df_rt (SetSZ env d sz)) 1"
  using SetSZ_eq[of env d sz] clamp_not_above[of "kOne env"] by simp

lemma diffuse_step_rt:
  assumes "kOne env \<le> 1" and "\<not> ieee_gt (df_rt d) 1"
  shows "\<not> ieee_gt (df_rt (diffuse_step env d c)) 1"
proof (cases c)
  case (CallSetSZ v)
  then show ?thesis using SetSZ_not_above[OF assms(1)] by simp
next
  case (CallSetRT v)
  then show ?thesis using SetRT_not_above[OF assms(1)] by simp
next
  case (CallSetDf v)
  then show ?thesis using assms by (simp add: SetDf_def)
next
  case CallUpdateDelayTimes
  then show ?thesis using assms by (simp add: UpdateDelayTimes_rt)
next
  case (CallDiffuseProcess v x)
  then show ?thesis using assms Diffuse_Process_fields[of env d v x] by simp
qed

lemma diffuse_run_rt:
  "kOne env \<le> 1 \<Longrightarrow> \<not> ieee_gt (df_rt d) 1 \<Longrightarrow> \<not> ieee_gt (df_rt (diffuse_run env d cs)) 1"
proof (induction cs arbitrary: d)
  case Nil
  then show ?case by simp
next
  case (Cons c cs)
  show ?case
    using Cons.IH[OF Cons.prems(1) diffuse_step_rt[OF Cons.prems, of c]] by simp
qed

lemma Diffuse_ctor_rt: "kOne env \<le> 1 \<Longrightarrow> \<not> ieee_gt (df_rt (Diffuse_ctor env u)) 1"
  using SetRT_not_above[of env _ 0] by (simp add: Diffuse_ctor_def)

text \<open>The bound on \<open>kOne\<close> is needed: with \<open>kOne\<close> equal to 4, the gain 2 is stored as it
  is.\<close>

lemma gain_above_one_with_large_kOne:
  "df_rt (SetRT (small_ambience\<lparr>kOne := 4\<rparr>) small_diffuse 7) = Fin 2"
  by (simp add: SetRT_def small_ambience_def Let_def)

text \<open>
  Claim C5, for the gains that are not NaN. Let \<open>kOne\<close> be at most 1. \<open>SetRT\<close> divides
  without a guard and returns for every delay time of the last stage and every decay
  time. The gain it stores, also when \<open>SetSZ\<close> calls it, is 1 when \<open>Db2A\<close> gives a value
  that is at least \<open>kOne\<close>, and the value that \<open>Db2A\<close> gives otherwise. So the gain is never
  greater than 1; it is NaN exactly when \<open>Db2A\<close> gives NaN, and it is at most 1 when it is
  not NaN. The level that \<open>Db2A\<close> is given is NaN exactly when the decay time converts to
  the delay 0 and the delay time of the last stage is 0 too; so with a \<open>Db2A\<close> that gives
  NaN at NaN only, the gain is at most 1 for every other combination. In every state
  reached from the constructor the gain is not greater than 1, and the feedback tap that
  \<open>Process\<close> stores is the output of the last stage multiplied by that gain.
\<close>

theorem feedback_gain_not_above_one:
  assumes "kOne env \<le> 1"
    and "g = Db2A env (decay_level env d t)"
    and "a = df_delayTimes d ! (kAmbienceNofDiffusers env - 1)"
    and "d1 = diffuse_run env (Diffuse_ctor env u) cs"
  shows "df_rt (SetRT env d t) = (if ieee_ge g (kOne env) then Fin 1 else g)
    \<and> df_rt (SetSZ env d sz) = df_rt (SetRT env d (df_time d))
    \<and> \<not> ieee_gt (df_rt (SetRT env d t)) 1
    \<and> \<not> ieee_gt (df_rt (SetSZ env d sz)) 1
    \<and> (df_rt (SetRT env d t) = NaN) = (g = NaN)
    \<and> (g \<noteq> NaN \<longrightarrow> ieee_le (df_rt (SetRT env d t)) 1)
    \<and> (df_rt (SetSZ env d sz) \<noteq> NaN \<longrightarrow> ieee_le (df_rt (SetSZ env d sz)) 1)
    \<and> (decay_level env d t = NaN) = (M2D env t = 0 \<and> a = 0)
    \<and> ((\<forall>l. l \<noteq> NaN \<longrightarrow> Db2A env l \<noteq> NaN) \<and> (M2D env t \<noteq> 0 \<or> a \<noteq> 0) \<longrightarrow>
          ieee_le (df_rt (SetRT env d t)) 1)
    \<and> \<not> ieee_gt (df_rt d1) 1
    \<and> GetFbOut (snd (Diffuse_Process env d1 v x))
        = ieee_mul (Fin (df_outs (snd (fold (Diffuse_stage env x)
                                         [0 ..< kAmbienceNofDiffusers env - 1] (v, d1)))
                           ! (kAmbienceNofDiffusers env - 1)))
            (df_rt d1)"
proof -
  have rt: "df_rt (SetRT env d t) = (if ieee_ge g (kOne env) then Fin 1 else g)"
    using SetRT_eq[of env d t] assms(2) by simp
  have sz: "df_rt (SetSZ env d sz) = df_rt (SetRT env d (df_time d))"
    using SetSZ_eq[of env d sz] SetRT_eq[of env d "df_time d"] by simp
  have le: "ieee_le (df_rt (SetRT env d t')) 1" if "df_rt (SetRT env d t') \<noteq> NaN" for t'
    using that SetRT_eq[of env d t'] clamp_le_or_NaN[OF assms(1), of "Db2A env (decay_level env d t')"]
      clamp_NaN[of "Db2A env (decay_level env d t')" "kOne env"]
    by simp
  have nan: "(df_rt (SetRT env d t) = NaN) = (g = NaN)"
    unfolding rt by (rule clamp_NaN)
  have lev: "(decay_level env d t = NaN) = (M2D env t = 0 \<and> a = 0)"
    unfolding assms(3) by (rule decay_level_NaN)
  have tot: "ieee_le (df_rt (SetRT env d t)) 1"
    if "\<forall>l. l \<noteq> NaN \<longrightarrow> Db2A env l \<noteq> NaN" "M2D env t \<noteq> 0 \<or> a \<noteq> 0"
  proof -
    have "decay_level env d t \<noteq> NaN" using lev that(2) by blast
    then have "g \<noteq> NaN" using that(1) assms(2) by simp
    then show ?thesis using le[of t] nan by simp
  qed
  have run: "\<not> ieee_gt (df_rt d1) 1"
    unfolding assms(4) using diffuse_run_rt[OF assms(1) Diffuse_ctor_rt[OF assms(1)]] .
  have a1: "g \<noteq> NaN \<longrightarrow> ieee_le (df_rt (SetRT env d t)) 1"
    using le[of t] nan by simp
  have a2: "df_rt (SetSZ env d sz) \<noteq> NaN \<longrightarrow> ieee_le (df_rt (SetSZ env d sz)) 1"
    using le[of "df_time d"] sz by simp
  have fb: "GetFbOut (snd (Diffuse_Process env d1 v x))
        = ieee_mul (Fin (df_outs (snd (fold (Diffuse_stage env x)
                                         [0 ..< kAmbienceNofDiffusers env - 1] (v, d1)))
                           ! (kAmbienceNofDiffusers env - 1)))
            (df_rt d1)"
    using Diffuse_Process_fields[of env d1 v x] by simp
  show ?thesis
    using rt sz SetRT_not_above[OF assms(1), of d t] SetSZ_not_above[OF assms(1), of d sz]
      nan a1 a2 lev tot run fb
    by blast
qed

lemma small_SetRT:
  "SetRT small_ambience small_diffuse 7 = small_diffuse\<lparr>df_time := 7, df_rt := Fin 1\<rparr>"
  by (simp add: SetRT_def decay_level_def small_ambience_def small_diffuse_def Let_def)

lemma plain_SetRT:
  "decay_level plain_ambience small_diffuse 0 = MinusInf
   \<and> SetRT plain_ambience small_diffuse 0 = small_diffuse\<lparr>df_time := 0, df_rt := Fin 0\<rparr>"
  by (simp add: SetRT_def decay_level_def ieee_div_def plain_ambience_def small_ambience_def
      small_diffuse_def Let_def)

lemma small_level: "ieee_round 5 = Fin 5 \<and> ieee_round (- 300) = Fin (- 300)"
  unfolding ieee_round_def max_float_def by code_simp

text \<open>A level that converts to the gain 2 is stored as the gain 1.\<close>

theorem feedback_gain_not_above_one_witness:
  "kOne small_ambience \<le> 1
   \<and> decay_level small_ambience small_diffuse 7 = Fin (- 300)
   \<and> Db2A small_ambience (Fin (- 300)) = Fin 2
   \<and> SetRT small_ambience small_diffuse 7 = small_diffuse\<lparr>df_time := 7, df_rt := Fin 1\<rparr>
   \<and> ieee_le (df_rt (SetRT small_ambience small_diffuse 7)) 1
   \<and> \<not> ieee_gt (df_rt (SetRT small_ambience small_diffuse 7)) 1
   \<and> M2D small_ambience 7 \<noteq> 0"
proof -
  have h: "kOne small_ambience \<le> 1"
    by (simp add: small_ambience_def)
  have l: "decay_level small_ambience small_diffuse 7 = Fin (- 300)"
    by (simp add: decay_level_def ieee_div_def small_ambience_def small_diffuse_def small_level)
  have g: "Db2A small_ambience (Fin (- 300)) = Fin 2" "M2D small_ambience 7 \<noteq> 0"
    by (simp_all add: small_ambience_def)
  note t = feedback_gain_not_above_one[OF h refl refl refl, of small_diffuse 7]
  have n: "Db2A small_ambience (decay_level small_ambience small_diffuse 7) \<noteq> NaN"
    unfolding l g by simp
  have le: "ieee_le (df_rt (SetRT small_ambience small_diffuse 7)) 1"
    using t n by blast
  have gt: "\<not> ieee_gt (df_rt (SetRT small_ambience small_diffuse 7)) 1"
    using t by blast
  show ?thesis
    by (intro conjI h l g small_SetRT le gt)
qed

text \<open>
  Claim C5 as stated fails where the division is zero by zero. With a last stage of delay
  time 0, the decay time 0 converting to the delay 0, and a \<open>Db2A\<close> that gives NaN at NaN,
  \<open>SetRT\<close> stores the gain NaN, which is not at most 1, and the next \<open>Process\<close> stores NaN
  in the feedback tap.
\<close>

theorem feedback_gain_not_above_one_counterexample:
  "kOne plain_ambience = 1
   \<and> df_rt (SetRT plain_ambience still_diffuse 0) = NaN
   \<and> \<not> ieee_le (df_rt (SetRT plain_ambience still_diffuse 0)) 1
   \<and> GetFbOut (snd (Diffuse_Process plain_ambience (SetRT plain_ambience still_diffuse 0) 1 0))
       = NaN"
  by (simp add: SetRT_def decay_level_def ieee_div_def Diffuse_Process_def Diffuse_stage_def
      GetFbOut_def plain_ambience_def small_ambience_def still_diffuse_def small_diffuse_def
      Let_def)

section \<open>ReversedBuffer: the window after SetDelay\<close>

lemma rb_ctor: "ReversedBuffer_ctor 8 (replicate 8 0) 0 0
  = Inr \<lparr>rv_line = [0, 0, 0, 0, 0, 0, 0, 0], rv_s = 8, rv_d = 0, rv_i = 0,
        rv_o = 7, rv_bs = 4, rv_b = 4, rv_rb = 1 / 4, rv_out = 0\<rparr>"
  by code_simp

lemma rb_delay: "SetDelay \<lparr>rv_line = [0, 0, 0, 0, 0, 0, 0, 0], rv_s = 8, rv_d = 0, rv_i = 0,
        rv_o = 7, rv_bs = 4, rv_b = 4, rv_rb = 1 / 4, rv_out = 0\<rparr> 2
  = \<lparr>rv_line = [0, 0, 0, 0, 0, 0, 0, 0], rv_s = 8, rv_d = 0, rv_i = 0,
        rv_o = 7, rv_bs = 2, rv_b = 4, rv_rb = 1 / 4, rv_out = 0\<rparr>"
  by code_simp

lemma rb_run: "ReversedBuffer_Processes \<lparr>rv_line = [0, 0, 0, 0, 0, 0, 0, 0], rv_s = 8, rv_d = 0, rv_i = 0,
        rv_o = 7, rv_bs = 2, rv_b = 4, rv_rb = 1 / 4, rv_out = 0\<rparr> [1, 1, 1, 1]
  = Some (Inr ([0, 0, 0, 0],
        \<lparr>rv_line = [1, 1, 1, 1, 0, 0, 0, 0], rv_s = 8, rv_d = 0, rv_i = 4,
           rv_o = 3, rv_bs = 2, rv_b = 2, rv_rb = 1 / 4, rv_out = 0\<rparr>))"
  by code_simp

lemma rb_gain: "window_gain \<lparr>rv_line = [1, 1, 1, 1, 0, 0, 0, 0], rv_s = 8, rv_d = 0, rv_i = 4,
           rv_o = 3, rv_bs = 2, rv_b = 2, rv_rb = 1 / 4, rv_out = 0\<rparr> = 1"
  by code_simp

text \<open>
  Claim C8 fails on the code. A buffer of 8 samples starts with blocks of 4 and the
  reciprocal 1/4. After \<open>SetDelay(2)\<close> and the four \<open>Process\<close> calls that exhaust the first
  block, the block length 2 is applied, but the reciprocal is still 1/4: the next call
  takes \<open>x = 2 * 1/4 = 1/2\<close> and the gain \<open>4 * x * (1 - x) = 1\<close>, where the whole of the
  new block remains and the claim gives \<open>x = 1\<close> and the gain 0.
\<close>

theorem window_gain_after_SetDelay:
  "ReversedBuffer_ctor 8 (replicate 8 0) 0 0
     = Inr \<lparr>rv_line = [0, 0, 0, 0, 0, 0, 0, 0], rv_s = 8, rv_d = 0, rv_i = 0,
            rv_o = 7, rv_bs = 4, rv_b = 4, rv_rb = 1 / 4, rv_out = 0\<rparr>
   \<and> ReversedBuffer_Processes
        (SetDelay \<lparr>rv_line = [0, 0, 0, 0, 0, 0, 0, 0], rv_s = 8, rv_d = 0, rv_i = 0,
                    rv_o = 7, rv_bs = 4, rv_b = 4, rv_rb = 1 / 4, rv_out = 0\<rparr> 2)
        [1, 1, 1, 1]
     = Some (Inr ([0, 0, 0, 0],
          \<lparr>rv_line = [1, 1, 1, 1, 0, 0, 0, 0], rv_s = 8, rv_d = 0, rv_i = 4,
            rv_o = 3, rv_bs = 2, rv_b = 2, rv_rb = 1 / 4, rv_out = 0\<rparr>))
   \<and> window_gain \<lparr>rv_line = [1, 1, 1, 1, 0, 0, 0, 0], rv_s = 8, rv_d = 0, rv_i = 4,
            rv_o = 3, rv_bs = 2, rv_b = 2, rv_rb = 1 / 4, rv_out = 0\<rparr> = 1"
  by (simp only: rb_ctor rb_delay rb_run rb_gain)

end
